theory Spec2Isabelle
  imports Main "HOL-Library.Sublist" "HOL-Library.AList"
begin

section \<open>Strings\<close>

text \<open>
  A JavaScript string is a sequence of UTF-16 code units; it is modelled as a \<open>string\<close>,
  one \<open>char\<close> per code unit, so that \<open>length\<close> is the source's \<open>.length\<close>.
  Numbers are \<open>int\<close>: the end markers of the delta scan reach \<open>-1\<close>.
\<close>

text \<open>\<open>s[i]\<close>: the code unit at index \<open>i\<close>, \<open>undefined\<close> (here \<open>None\<close>) out of range.\<close>

definition char_at :: "string \<Rightarrow> int \<Rightarrow> char option" where
  "char_at s i = (if 0 \<le> i \<and> i < int (length s) then Some (s ! nat i) else None)"

text \<open>
  \<open>String.prototype.slice\<close>: a negative index counts from the end, every index is
  clamped to \<open>[0, length]\<close>, and an empty range gives the empty string.
\<close>

definition slice_index :: "nat \<Rightarrow> int \<Rightarrow> nat" where
  "slice_index len i = (if i < 0 then nat (max (int len + i) 0) else min (nat i) len)"

definition slice :: "string \<Rightarrow> int \<Rightarrow> int \<Rightarrow> string" where
  "slice s b e =
     take (slice_index (length s) e - slice_index (length s) b)
          (drop (slice_index (length s) b) s)"

definition slice_from :: "string \<Rightarrow> int \<Rightarrow> string" where
  "slice_from s b = drop (slice_index (length s) b) s"

section \<open>Change entries\<close>

text \<open>
  An operation is \<open>{type: 'insert', position, content}\<close> or
  \<open>{type: 'delete', position, length, content}\<close> (\<open>add\<close> records the deleted text too).
  A change entry is \<open>{type: 'createFile', content}\<close>, \<open>{type: 'deleteFile'}\<close> or an
  array of operations.
\<close>

datatype operation =
    Insert (position: int) (content: string)
  | Delete (position: int) (del_length: int) (content: string)

datatype change = CreateFile string | DeleteFile | Ops "operation list"

section \<open>Delta engine (the body of \<open>add\<close>)\<close>

text \<open>The first \<open>while\<close> loop of \<open>add\<close>: \<open>start\<close> advances over the common prefix.\<close>

function scanStart :: "string \<Rightarrow> string \<Rightarrow> int \<Rightarrow> int" where
  "scanStart previousContent currentContent start =
     (if start < int (length previousContent) \<and> start < int (length currentContent)
         \<and> char_at previousContent start = char_at currentContent start
      then scanStart previousContent currentContent (start + 1)
      else start)"
  by pat_completeness auto
termination
  by (relation "measure (\<lambda>(p, c, s). nat (int (length p) - s))") auto

text \<open>The second loop: \<open>oldEnd\<close> and \<open>newEnd\<close> retreat together over the common suffix.\<close>

function scanEnd :: "string \<Rightarrow> string \<Rightarrow> int \<Rightarrow> int \<Rightarrow> int \<Rightarrow> int \<times> int" where
  "scanEnd previousContent currentContent start oldEnd newEnd =
     (if oldEnd \<ge> start \<and> newEnd \<ge> start
         \<and> char_at previousContent oldEnd = char_at currentContent newEnd
      then scanEnd previousContent currentContent start (oldEnd - 1) (newEnd - 1)
      else (oldEnd, newEnd))"
  by pat_completeness auto
termination
  by (relation "measure (\<lambda>(p, c, s, oe, ne). nat (oe - s + 1))") auto

declare scanStart.simps [simp del] scanEnd.simps [simp del]

text \<open>
  The operations \<open>add\<close> computes for a tracked file whose previous content is
  \<open>previousContent\<close> and whose working-tree content is \<open>currentContent\<close>. The branch is
  entered only when the two differ; otherwise nothing is computed.
\<close>

definition delta_operations :: "string \<Rightarrow> string \<Rightarrow> operation list" where
  "delta_operations previousContent currentContent =
     (if currentContent \<noteq> previousContent then
        (let start = scanStart previousContent currentContent 0;
             ends = scanEnd previousContent currentContent start
                      (int (length previousContent) - 1) (int (length currentContent) - 1);
             oldEnd = fst ends;
             newEnd = snd ends;
             deletionLength = oldEnd - start + 1;
             operations = (if deletionLength > 0
                           then [Delete start deletionLength (slice previousContent start (oldEnd + 1))]
                           else []);
             insertionContent = slice currentContent start (newEnd + 1)
         in operations @ (if length insertionContent > 0 then [Insert start insertionContent] else []))
      else [])"

text \<open>What \<open>add\<close> stores for one path: \<open>previousContent\<close> is \<open>activeState[relativePath]\<close>.\<close>

definition add_entry :: "string option \<Rightarrow> string \<Rightarrow> change option" where
  "add_entry previousContent currentContent =
     (case previousContent of
        None \<Rightarrow> Some (CreateFile currentContent)
      | Some previous \<Rightarrow>
          (let operations = delta_operations previous currentContent
           in if length operations > 0 then Some (Ops operations) else None))"

section \<open>Replay of operations (\<open>getStateByHash\<close>)\<close>

fun applyOperation :: "string \<Rightarrow> operation \<Rightarrow> string" where
  "applyOperation currentContent (Insert pos ins) =
     slice currentContent 0 pos @ ins @ slice_from currentContent pos"
| "applyOperation currentContent (Delete pos len _) =
     slice currentContent 0 pos @ slice_from currentContent (pos + len)"

definition applyOperations :: "string \<Rightarrow> operation list \<Rightarrow> string" where
  "applyOperations currentContent changeSet = foldl applyOperation currentContent changeSet"


section \<open>JSON text\<close>

text \<open>
  \<open>JSON.stringify\<close> on the values the store writes: strings, integers, arrays and
  objects with their properties in creation order. \<open>stringify\<close> is the compact form
  (one argument), \<open>stringify_pretty\<close> the form with a two-space indent
  (\<open>JSON.stringify(v, null, 2)\<close>).
\<close>

datatype json = JString string | JNumber int | JArray "json list" | JObject "(string \<times> json) list"

definition hex_digit :: "nat \<Rightarrow> char" where
  "hex_digit n = ''0123456789abcdef'' ! n"

text \<open>One code unit inside a quoted JSON string.\<close>

definition quote_unit :: "char \<Rightarrow> string" where
  "quote_unit c =
     (if c = CHR 0x08 then [CHR 0x5C, CHR ''b'']
      else if c = CHR 0x09 then [CHR 0x5C, CHR ''t'']
      else if c = CHR 0x0A then [CHR 0x5C, CHR ''n'']
      else if c = CHR 0x0C then [CHR 0x5C, CHR ''f'']
      else if c = CHR 0x0D then [CHR 0x5C, CHR ''r'']
      else if c = CHR 0x22 then [CHR 0x5C, CHR 0x22]
      else if c = CHR 0x5C then [CHR 0x5C, CHR 0x5C]
      else if of_char c < (0x20 :: nat)
        then [CHR 0x5C, CHR ''u'', CHR ''0'', CHR ''0'',
              hex_digit (of_char c div 16), hex_digit (of_char c mod 16)]
      else [c])"

definition quote :: "string \<Rightarrow> string" where
  "quote s = [CHR 0x22] @ concat (map quote_unit s) @ [CHR 0x22]"

fun dec :: "nat \<Rightarrow> string" where
  "dec n = (if n < 10 then [''0123456789'' ! n]
            else dec (n div 10) @ [''0123456789'' ! (n mod 10)])"

declare dec.simps [simp del]

definition number_text :: "int \<Rightarrow> string" where
  "number_text i = (if i < 0 then CHR ''-'' # dec (nat (- i)) else dec (nat i))"

fun join :: "string \<Rightarrow> string list \<Rightarrow> string" where
  "join sep [] = []"
| "join sep [x] = x"
| "join sep (x # y # ys) = x @ sep @ join sep (y # ys)"

fun stringify :: "json \<Rightarrow> string" where
  "stringify (JString s) = quote s"
| "stringify (JNumber i) = number_text i"
| "stringify (JArray xs) = ''['' @ join '','' (map stringify xs) @ '']''"
| "stringify (JObject kvs) =
     ''{'' @ join '','' (map (\<lambda>kv. quote (fst kv) @ '':'' @ stringify (snd kv)) kvs) @ ''}''"

definition indent :: "nat \<Rightarrow> string" where
  "indent level = replicate (2 * level) CHR '' ''"

fun stringify_pretty :: "nat \<Rightarrow> json \<Rightarrow> string" where
  "stringify_pretty level (JString s) = quote s"
| "stringify_pretty level (JNumber i) = number_text i"
| "stringify_pretty level (JArray xs) =
     (if xs = [] then ''[]''
      else ''['' @ [CHR 0x0A] @ indent (level + 1)
           @ join ('','' @ [CHR 0x0A] @ indent (level + 1))
               (map (stringify_pretty (level + 1)) xs)
           @ [CHR 0x0A] @ indent level @ '']'')"
| "stringify_pretty level (JObject kvs) =
     (if kvs = [] then ''{}''
      else ''{'' @ [CHR 0x0A] @ indent (level + 1)
           @ join ('','' @ [CHR 0x0A] @ indent (level + 1))
               (map (\<lambda>kv. quote (fst kv) @ '': '' @ stringify_pretty (level + 1) (snd kv)) kvs)
           @ [CHR 0x0A] @ indent level @ ''}'')"

text \<open>
  The bytes \<open>fs.writeFileSync\<close> writes for a string (UTF-8): a code unit below
  \<open>0x80\<close> is one byte, any other (here up to \<open>0xFF\<close>) two.
\<close>

definition utf8_length :: "string \<Rightarrow> nat" where
  "utf8_length s = sum_list (map (\<lambda>c. if of_char c < (0x80 :: nat) then 1 else 2) s)"

section \<open>Objects and the paginated layout\<close>

text \<open>
  A JavaScript object used as a dictionary is an association list in insertion order,
  with \<open>AList.update\<close> for \<open>obj[k] = v\<close> (an existing key keeps its place),
  \<open>AList.delete\<close> for \<open>delete obj[k]\<close> and \<open>map_of\<close> for \<open>obj[k]\<close>
  (\<open>None\<close> is \<open>undefined\<close>).
\<close>

type_synonym path = string
type_synonym hash = string
type_synonym changes = "(path \<times> change) list"
type_synonym file_state = "(path \<times> string) list"

text \<open>\<open>Object.assign(target, source)\<close>.\<close>

definition assign :: "('k \<times> 'v) list \<Rightarrow> ('k \<times> 'v) list \<Rightarrow> ('k \<times> 'v) list" where
  "assign target source = fold (\<lambda>kv obj. AList.update (fst kv) (snd kv) obj) source target"

text \<open>\<open>!x\<close> for a value that is a string, \<open>null\<close> or \<open>undefined\<close>: the empty string is falsy too.\<close>

definition falsy :: "string option \<Rightarrow> bool" where
  "falsy x = (case x of None \<Rightarrow> True | Some s \<Rightarrow> s = [])"

text \<open>\<open>x || ''\<close>.\<close>

definition or_empty :: "string option \<Rightarrow> string" where
  "or_empty x = (case x of None \<Rightarrow> [] | Some s \<Rightarrow> s)"

definition operation_json :: "operation \<Rightarrow> json" where
  "operation_json operation =
     (case operation of
        Insert pos ins \<Rightarrow>
          JObject [(''type'', JString ''insert''), (''position'', JNumber pos), (''content'', JString ins)]
      | Delete pos len del \<Rightarrow>
          JObject [(''type'', JString ''delete''), (''position'', JNumber pos),
                   (''length'', JNumber len), (''content'', JString del)])"

definition change_json :: "change \<Rightarrow> json" where
  "change_json changeSet =
     (case changeSet of
        CreateFile c \<Rightarrow> JObject [(''type'', JString ''createFile''), (''content'', JString c)]
      | DeleteFile \<Rightarrow> JObject [(''type'', JString ''deleteFile'')]
      | Ops operations \<Rightarrow> JArray (map operation_json operations))"

definition changes_json :: "changes \<Rightarrow> json" where
  "changes_json cs = JObject (map (\<lambda>kv. (fst kv, change_json (snd kv))) cs)"

definition MAX_PART_SIZE :: nat where
  "MAX_PART_SIZE = 32000000"

text \<open>\<open>JSON.stringify(changeSet).length\<close>: what the split counts for one change.\<close>

definition change_size :: "change \<Rightarrow> nat" where
  "change_size changeSet = length (stringify (change_json changeSet))"

text \<open>The text of a part file, \<open>JSON.stringify({ changes: currentPartChanges }, null, 2)\<close>,
  and its size on disk.\<close>

definition part_text :: "changes \<Rightarrow> string" where
  "part_text part = stringify_pretty 0 (JObject [(''changes'', changes_json part)])"

definition part_disk_size :: "changes \<Rightarrow> nat" where
  "part_disk_size part = utf8_length (part_text part)"

text \<open>
  A paginated directory (the stage, a stash): \<open>manifest.json\<close> with its \<open>parts\<close> list,
  if the manifest exists, and the part files; \<open>part.N.json\<close> is named by \<open>N\<close>.
\<close>

record pagedDir =
  manifest_parts :: "nat list option"
  parts_on_disk :: "nat \<rightharpoonup> changes"

text \<open>
  \<open>getPaginatedChanges\<close> (and its copy \<open>getStagedChanges\<close>): a missing directory or
  manifest gives the empty object; a listed part that is missing is skipped.
\<close>

definition getPaginatedChanges :: "pagedDir option \<Rightarrow> changes" where
  "getPaginatedChanges dir =
     (case dir of
        None \<Rightarrow> []
      | Some d \<Rightarrow>
          (case manifest_parts d of
             None \<Rightarrow> []
           | Some names \<Rightarrow>
               fold (\<lambda>partName allChanges.
                       case parts_on_disk d partName of
                         None \<Rightarrow> allChanges
                       | Some partChanges \<Rightarrow> assign allChanges partChanges)
                    names []))"

text \<open>
  The split loop is written four times in the source (\<open>savePaginatedChanges\<close>,
  \<open>add\<close>, \<open>commit\<close>, \<open>merge\<close>) over the same four variables: the files written so
  far, the list of part names, \<open>currentPartChanges\<close> and \<open>currentSize\<close>. The copies
  differ in the name of a part, in whether the closure that writes a part returns early
  on an empty part, and in whether the loop asks for a non-empty part before it calls
  the closure.
\<close>

record 'n writer =
  written :: "'n \<rightharpoonup> changes"
  partNames :: "'n list"
  currentPartChanges :: changes
  currentSize :: nat

text \<open>The closure of \<open>add\<close>: it writes the part whatever it holds.\<close>

definition writePart :: "(nat \<Rightarrow> 'n) \<Rightarrow> 'n writer \<Rightarrow> 'n writer" where
  "writePart partName w =
     w\<lparr>written := (written w)(partName (length (partNames w)) \<mapsto> currentPartChanges w),
       partNames := partNames w @ [partName (length (partNames w))],
       currentPartChanges := [],
       currentSize := 0\<rparr>"

text \<open>The closure of the three other copies: nothing happens on an empty part.\<close>

definition savePart :: "(nat \<Rightarrow> 'n) \<Rightarrow> 'n writer \<Rightarrow> 'n writer" where
  "savePart partName w =
     (if length (currentPartChanges w) = 0 then w else writePart partName w)"

text \<open>One round of the loop for the entry \<open>[file, changeSet]\<close>.\<close>

definition place :: "('n writer \<Rightarrow> 'n writer) \<Rightarrow> bool \<Rightarrow> 'n writer \<Rightarrow> path \<times> change \<Rightarrow> 'n writer" where
  "place save askNonEmpty w entry =
     (let size = change_size (snd entry);
          w' = (if currentSize w + size > MAX_PART_SIZE
                   \<and> (if askNonEmpty then length (currentPartChanges w) > 0 else True)
                then save w else w)
      in w'\<lparr>currentPartChanges := AList.update (fst entry) (snd entry) (currentPartChanges w'),
            currentSize := currentSize w' + size\<rparr>)"

definition new_writer :: "('n \<rightharpoonup> changes) \<Rightarrow> 'n writer" where
  "new_writer files = \<lparr>written = files, partNames = [], currentPartChanges = [], currentSize = 0\<rparr>"

text \<open>\<open>savePaginatedChanges\<close>: the directory is removed and written afresh, the manifest last.\<close>

definition savePaginatedChanges :: "changes \<Rightarrow> pagedDir" where
  "savePaginatedChanges cs =
     (let w = savePart id (foldl (place (savePart id) True) (new_writer Map.empty) cs)
      in \<lparr>manifest_parts = Some (partNames w), parts_on_disk = written w\<rparr>)"

text \<open>The same in \<open>add\<close>, whose closure has no early return.\<close>

definition add_save :: "changes \<Rightarrow> pagedDir" where
  "add_save currentStaged =
     (let w = writePart id (foldl (place (writePart id) True) (new_writer Map.empty) currentStaged)
      in \<lparr>manifest_parts = Some (partNames w), parts_on_disk = written w\<rparr>)"

section \<open>Repository\<close>

text \<open>
  A commit master \<open><hash>.json\<close>. Its changes are in the part files its \<open>parts\<close> list
  names (\<open><hash>.part.N.json\<close>, named here by the pair), or, in the older layout that
  \<open>getStateByHash\<close> still reads, inline under \<open>changes\<close>.
\<close>

datatype payload = Parts "(hash \<times> nat) list" | Inline changes | Neither

record commitMaster =
  cm_hash :: hash
  cm_message :: string
  cm_timestamp :: nat
  cm_parent :: "hash option"
  cm_payload :: payload

text \<open>
  A branch directory under \<open>history/local\<close> or \<open>history/remote\<close>: the \<open>commits\<close> of
  its \<open>manifest.json\<close> (\<open>branch\<close> writes the manifest with the directory), the commit
  masters and the part files.
\<close>

record branchDir =
  commits :: "hash list"
  masters :: "hash \<rightharpoonup> commitMaster"
  part_files :: "hash \<times> nat \<rightharpoonup> changes"

text \<open>
  The workspace: \<open>active\<close> of \<open>.art/art.json\<close>, the root snapshot (the files of each
  part of \<open>root/manifest.json\<close>, \<open>None\<close> without the manifest), the two histories, the
  stage directory and the files of the working tree outside \<open>.art\<close>, with their
  content. A path names a regular file; a branch name is one path component.
\<close>

record repo =
  active_branch :: string
  active_parent :: "hash option"
  root_snapshot :: "(path \<times> string) list list option"
  local_history :: "string \<rightharpoonup> branchDir"
  remote_history :: "string \<rightharpoonup> branchDir"
  stage :: "pagedDir option"
  worktree :: "(path \<times> string) list"

datatype error =
    PathDoesNotExist
  | MessageRequired
  | NothingToCommit
  | CommitNotFound
  | LocalChangesWouldBeOverwritten
  | InvalidBranchName
  | BranchAlreadyExists
  | ENOENT
  | TypeError

section \<open>State reconstruction (\<open>getStateByHash\<close>)\<close>

text \<open>The changes of one commit: its parts merged in order, or the inline changes.\<close>

definition fullChanges :: "branchDir \<Rightarrow> commitMaster \<Rightarrow> changes" where
  "fullChanges bd commitMaster =
     (case cm_payload commitMaster of
        Parts names \<Rightarrow>
          fold (\<lambda>partName acc.
                  case part_files bd partName of
                    None \<Rightarrow> acc
                  | Some partChanges \<Rightarrow> assign acc partChanges)
               names []
      | Inline cs \<Rightarrow> cs
      | Neither \<Rightarrow> [])"

definition applyChange :: "file_state \<Rightarrow> path \<times> change \<Rightarrow> file_state" where
  "applyChange state entry =
     (case snd entry of
        Ops changeSet \<Rightarrow>
          AList.update (fst entry)
            (applyOperations (or_empty (map_of state (fst entry))) changeSet) state
      | CreateFile c \<Rightarrow> AList.update (fst entry) c state
      | DeleteFile \<Rightarrow> AList.delete (fst entry) state)"

text \<open>
  The loop over \<open>manifest.commits\<close>: a commit without master file is skipped
  (\<open>continue\<close>), and the loop stops after the commit whose hash is the target.
\<close>

fun replay :: "branchDir \<Rightarrow> hash option \<Rightarrow> hash list \<Rightarrow> file_state \<Rightarrow> file_state" where
  "replay bd targetHash [] state = state"
| "replay bd targetHash (h # hs) state =
     (case masters bd h of
        None \<Rightarrow> replay bd targetHash hs state
      | Some commitMaster \<Rightarrow>
          (let state' = foldl applyChange state (fullChanges bd commitMaster)
           in if Some h = targetHash then state' else replay bd targetHash hs state'))"

definition rootState :: "(path \<times> string) list list \<Rightarrow> file_state" where
  "rootState rootParts =
     foldl (\<lambda>state files. foldl (\<lambda>st file. AList.update (fst file) (snd file) st) state files)
           [] rootParts"

definition getStateByHash :: "repo \<Rightarrow> string \<Rightarrow> hash option \<Rightarrow> file_state" where
  "getStateByHash r branchName targetHash =
     (case root_snapshot r of
        None \<Rightarrow> []
      | Some rootParts \<Rightarrow>
          (case local_history r branchName of
             None \<Rightarrow> []
           | Some bd \<Rightarrow>
               (let state = rootState rootParts
                in if falsy targetHash then state
                   else replay bd targetHash (commits bd) state)))"

section \<open>Workflow: \<open>add\<close> and \<open>commit\<close>\<close>

definition getStagedChanges :: "repo \<Rightarrow> changes" where
  "getStagedChanges r = getPaginatedChanges (stage r)"

text \<open>One round of the staging loop of \<open>add\<close>; the file is in the working tree.\<close>

definition add_file :: "file_state \<Rightarrow> (path \<times> string) list \<Rightarrow> changes \<Rightarrow> path \<Rightarrow> changes" where
  "add_file activeState tree currentStaged relativePath =
     (case add_entry (map_of activeState relativePath) (or_empty (map_of tree relativePath)) of
        None \<Rightarrow> currentStaged
      | Some entry \<Rightarrow> AList.update relativePath entry currentStaged)"

text \<open>
  \<open>add\<close> on the path of a file (for a directory the source only collects more files
  before the same loop). \<open>shouldIgnore\<close> is the ignore predicate.
\<close>

definition add :: "(path \<Rightarrow> bool) \<Rightarrow> path \<Rightarrow> repo \<Rightarrow> (error + string) \<times> repo" where
  "add shouldIgnore targetPath r =
     (if map_of (worktree r) targetPath = None then (Inl PathDoesNotExist, r)
      else
        (let activeState = getStateByHash r (active_branch r) (active_parent r);
             currentStaged = getStagedChanges r
         in if shouldIgnore targetPath \<and> falsy (map_of activeState targetPath)
            then (Inr (targetPath @ '' is being ignored.''), r)
            else
              (let filesToProcess = [targetPath];
                   staged = foldl (add_file activeState (worktree r)) currentStaged filesToProcess
               in (Inr (''Added '' @ dec (length filesToProcess) @ '' file(s) to stage.''),
                   r\<lparr>stage := Some (add_save staged)\<rparr>))))"

text \<open>
  \<open>commit\<close>. The SHA-1 digest and the clock are parameters. The parts go into the
  branch directory, named by the commit hash.
\<close>

definition commit :: "(string \<Rightarrow> hash) \<Rightarrow> nat \<Rightarrow> string \<Rightarrow> repo \<Rightarrow> (error + string) \<times> repo" where
  "commit sha1 now message r =
     (if message = [] then (Inl MessageRequired, r)
      else if stage r = None then (Inl NothingToCommit, r)
      else
        (let stagedChanges = getStagedChanges r;
             branch = active_branch r;
             timestamp = now;
             commitHash = sha1 (stringify (changes_json stagedChanges) @ dec timestamp @ message)
         in case local_history r branch of
              None \<Rightarrow> (Inl ENOENT, r)
            | Some bd \<Rightarrow>
                (let w = savePart (Pair commitHash)
                           (foldl (place (savePart (Pair commitHash)) True)
                                  (new_writer (part_files bd)) stagedChanges);
                     commitMaster = \<lparr>cm_hash = commitHash, cm_message = message,
                                     cm_timestamp = timestamp, cm_parent = active_parent r,
                                     cm_payload = Parts (partNames w)\<rparr>;
                     bd' = bd\<lparr>commits := commits bd @ [commitHash],
                              masters := (masters bd)(commitHash \<mapsto> commitMaster),
                              part_files := written w\<rparr>
                 in (Inr (''['' @ branch @ '' '' @ slice commitHash 0 7 @ ''] '' @ message),
                     r\<lparr>local_history := (local_history r)(branch \<mapsto> bd'),
                       active_parent := Some commitHash,
                       stage := None\<rparr>))))"

section \<open>Branching: \<open>branch\<close>, \<open>checkout\<close>, \<open>merge\<close>\<close>

text \<open>The three tests \<open>branch\<close> makes on a name.\<close>

definition illegal_name :: "string \<Rightarrow> bool" where
  "illegal_name name =
     (list_ex (\<lambda>c. c = CHR ''/'' \<or> c = CHR 0x5C) name
      \<or> list_ex (\<lambda>c. of_char c \<le> (0x1f :: nat) \<or> ((0x80 :: nat) \<le> of_char c \<and> of_char c \<le> (0x9f :: nat))) name
      \<or> (name \<noteq> [] \<and> list_all (\<lambda>c. c = CHR ''.'') name))"

text \<open>
  Copying one commit into the new branch directory: the master comes from the local
  source directory or else from its remote mirror, the parts from the same directory.
\<close>

definition copy_commit :: "branchDir option \<Rightarrow> branchDir option \<Rightarrow> branchDir \<Rightarrow> hash \<Rightarrow> branchDir" where
  "copy_commit sourceLocal sourceRemote dest h =
     (let hasMaster = (\<lambda>dir. case dir of None \<Rightarrow> False | Some d \<Rightarrow> masters d h \<noteq> None);
          source = (if hasMaster sourceLocal then sourceLocal
                    else if hasMaster sourceRemote then sourceRemote else None)
      in case source of
           None \<Rightarrow> dest
         | Some d \<Rightarrow>
             (case masters d h of
                None \<Rightarrow> dest
              | Some commitMaster \<Rightarrow>
                  (let dest1 = dest\<lparr>masters := (masters dest)(h \<mapsto> commitMaster)\<rparr>
                   in case cm_payload commitMaster of
                        Parts names \<Rightarrow>
                          foldl (\<lambda>acc partName.
                                   case part_files d partName of
                                     None \<Rightarrow> acc
                                   | Some part \<Rightarrow> acc\<lparr>part_files := (part_files acc)(partName \<mapsto> part)\<rparr>)
                                dest1 names
                      | Inline cs \<Rightarrow> dest1
                      | Neither \<Rightarrow> dest1)))"

text \<open>\<open>branch({ name })\<close> with a non-empty name: creation of a branch from the active one.\<close>

definition branch :: "string \<Rightarrow> repo \<Rightarrow> (error + string) \<times> repo" where
  "branch name r =
     (if illegal_name name then (Inl InvalidBranchName, r)
      else if local_history r name \<noteq> None then (Inl BranchAlreadyExists, r)
      else
        (let sourceBranchName = active_branch r;
             initialCommits = (case local_history r sourceBranchName of
                                 None \<Rightarrow> [] | Some bd \<Rightarrow> commits bd);
             fresh = \<lparr>commits = initialCommits, masters = Map.empty, part_files = Map.empty\<rparr>;
             remote = (if remote_history r name = None
                       then (remote_history r)(name \<mapsto> fresh) else remote_history r);
             filled = foldl (copy_commit (local_history r sourceBranchName)
                                         (remote_history r sourceBranchName))
                            fresh initialCommits
         in (Inr (''Created branch '' @ [CHR 0x22] @ name @ [CHR 0x22] @ ''.''),
             r\<lparr>local_history := (local_history r)(name \<mapsto> filled),
               remote_history := remote\<rparr>)))"

text \<open>\<open>'.art'\<close> is a prefix of the path: the filter of the working-tree scan.\<close>

definition startsWith_art :: "path \<Rightarrow> bool" where
  "startsWith_art file = (take 4 file = ''.art'')"

text \<open>The dirty test of \<open>checkout\<close>.\<close>

definition isDirty :: "(path \<times> string) list \<Rightarrow> file_state \<Rightarrow> bool" where
  "isDirty tree currentState =
     (let allWorkingDirectoryFiles = filter (\<lambda>file. \<not> startsWith_art file) (map fst tree)
      in list_ex (\<lambda>file. map_of tree file \<noteq> map_of currentState file) allWorkingDirectoryFiles
         \<or> list_ex (\<lambda>file. map_of tree file = None) (map fst currentState))"

text \<open>
  \<open>checkout(branchName, { force })\<close>. A missing branch is created first (the path
  of an empty name is the history directory itself, which exists). A thrown error
  leaves what was written before it.
\<close>

definition checkout :: "string \<Rightarrow> bool \<Rightarrow> repo \<Rightarrow> (error + string) \<times> repo" where
  "checkout branchName force r =
     (case (if branchName \<noteq> [] \<and> local_history r branchName = None
            then branch branchName r else (Inr [], r)) of
        (Inl e, r1) \<Rightarrow> (Inl e, r1)
      | (Inr _, r1) \<Rightarrow>
          (let currentState = getStateByHash r1 (active_branch r1) (active_parent r1)
           in if \<not> force \<and> isDirty (worktree r1) currentState
              then (Inl LocalChangesWouldBeOverwritten, r1)
              else
                (case local_history r1 branchName of
                   None \<Rightarrow> (Inl ENOENT, r1)
                 | Some bd \<Rightarrow>
                     (let targetHash = (if length (commits bd) > 0
                                        then Some (last (commits bd)) else None);
                          targetState = getStateByHash r1 branchName targetHash;
                          cleaned = foldl (\<lambda>tree filePath.
                                             if falsy (map_of targetState filePath)
                                             then AList.delete filePath tree else tree)
                                          (worktree r1) (map fst currentState);
                          rebuilt = foldl (\<lambda>tree file. AList.update (fst file) (snd file) tree)
                                          cleaned targetState
                      in (Inr (''Switched to branch '' @ [CHR 0x22] @ branchName @ [CHR 0x22] @ ''.''),
                          r1\<lparr>worktree := rebuilt,
                             active_branch := branchName,
                             active_parent := targetHash\<rparr>)))))"

text \<open>
  \<open>merge\<close> reads the three states with \<open>state[filePath]\<close>. The states are plain objects
  made by \<open>{}\<close> and assignments: a key that is not an own property is looked up on
  \<open>Object.prototype\<close>, whose members are found under their names, and \<open>__proto__\<close> is
  never an own property (an assignment to it adds none). The value read is a string,
  \<open>undefined\<close>, or the inherited member, which is the same object in every state.
\<close>

datatype jsvalue = Undefined | Text string | Inherited string

definition object_prototype_members :: "string list" where
  "object_prototype_members =
     [''constructor'', ''__defineGetter__'', ''__defineSetter__'', ''hasOwnProperty'',
      ''__lookupGetter__'', ''__lookupSetter__'', ''isPrototypeOf'', ''propertyIsEnumerable'',
      ''toString'', ''valueOf'', ''__proto__'', ''toLocaleString'']"

definition get_property :: "file_state \<Rightarrow> string \<Rightarrow> jsvalue" where
  "get_property state key =
     (if key = ''__proto__'' then Inherited key
      else case map_of state key of
             Some s \<Rightarrow> Text s
           | None \<Rightarrow> if key \<in> set object_prototype_members then Inherited key else Undefined)"

text \<open>
  The text of an inherited member in a template literal: the functions print as native
  functions under their names (\<open>constructor\<close> is \<open>Object\<close>), \<open>__proto__\<close> is the
  prototype object.
\<close>

definition member_text :: "string \<Rightarrow> string" where
  "member_text key =
     (if key = ''__proto__'' then ''[object Object]''
      else ''function '' @ (if key = ''constructor'' then ''Object'' else key)
           @ ''() { [native code] }'')"

text \<open>\<open>${v || ''}\<close>: an inherited member is truthy.\<close>

definition value_or_empty :: "jsvalue \<Rightarrow> string" where
  "value_or_empty v = (case v of Undefined \<Rightarrow> [] | Text s \<Rightarrow> s | Inherited key \<Rightarrow> member_text key)"

text \<open>The marker text of a conflict.\<close>

definition conflictContent :: "jsvalue \<Rightarrow> jsvalue \<Rightarrow> string \<Rightarrow> string" where
  "conflictContent active target targetBranch =
     ''<<<<<<< active'' @ [CHR 0x0A] @ value_or_empty active @ [CHR 0x0A] @ ''======='' @ [CHR 0x0A]
     @ value_or_empty target @ [CHR 0x0A] @ ''>>>>>>> '' @ targetBranch"

text \<open>
  One round of the merge loop: the working tree and the stage writer after the file
  \<open>filePath\<close>. An error in the first component means the loop has been left by a throw:
  \<open>fs.writeFileSync\<close> refuses a function as data with a \<open>TypeError\<close>, which happens
  when theirs is read as an inherited member in the branch that takes the target side.
\<close>

definition merge_file ::
  "file_state \<Rightarrow> file_state \<Rightarrow> file_state \<Rightarrow> string
   \<Rightarrow> error option \<times> (path \<times> string) list \<times> nat writer \<Rightarrow> path
   \<Rightarrow> error option \<times> (path \<times> string) list \<times> nat writer" where
  "merge_file baseState activeState targetState targetBranch acc filePath =
     (let base = get_property baseState filePath;
          active = get_property activeState filePath;
          target = get_property targetState filePath;
          tree = fst (snd acc);
          w = snd (snd acc)
      in if fst acc \<noteq> None then acc
         else if active = target then acc
         else if base = active \<and> base \<noteq> target then
           (case target of
              Undefined \<Rightarrow>
                (None, AList.delete filePath tree,
                 place (savePart id) False w (filePath, DeleteFile))
            | Text theirs \<Rightarrow>
                (None, AList.update filePath theirs tree,
                 place (savePart id) False w (filePath, CreateFile theirs))
            | Inherited key \<Rightarrow> (Some TypeError, tree, w))
         else if base \<noteq> active \<and> base \<noteq> target \<and> active \<noteq> target then
           (None, AList.update filePath (conflictContent active target targetBranch) tree,
            place (savePart id) False w
              (filePath, CreateFile (conflictContent active target targetBranch)))
         else acc)"

text \<open>The first hash of the reversed active list that the target list includes, or \<open>null\<close>.\<close>

definition commonAncestor :: "hash list \<Rightarrow> hash list \<Rightarrow> hash option" where
  "commonAncestor activeCommits targetCommits =
     (case List.find (\<lambda>h. h \<in> set targetCommits) (rev activeCommits) of
        None \<Rightarrow> None
      | Some h \<Rightarrow> if h = [] then None else Some h)"

text \<open>
  \<open>merge\<close>. The stage directory is emptied first; a throw leaves the parts written so
  far and no manifest.
\<close>

definition merge :: "string \<Rightarrow> repo \<Rightarrow> (error + string) \<times> repo" where
  "merge targetBranch r =
     (let activeBranch = active_branch r;
          r1 = r\<lparr>stage := Some \<lparr>manifest_parts = None, parts_on_disk = Map.empty\<rparr>\<rparr>
      in case local_history r1 activeBranch of
           None \<Rightarrow> (Inl ENOENT, r1)
         | Some activeManifest \<Rightarrow>
             (case local_history r1 targetBranch of
                None \<Rightarrow> (Inl ENOENT, r1)
              | Some targetManifest \<Rightarrow>
                  (let commonAncestorHash = commonAncestor (commits activeManifest) (commits targetManifest);
                       baseState = (if commonAncestorHash \<noteq> None
                                    then getStateByHash r1 activeBranch commonAncestorHash else []);
                       activeState = getStateByHash r1 activeBranch (active_parent r1);
                       lastTargetHash = (if commits targetManifest = [] then None
                                         else Some (last (commits targetManifest)));
                       targetState = getStateByHash r1 targetBranch lastTargetHash;
                       allFiles = map fst activeState
                                  @ filter (\<lambda>k. k \<notin> set (map fst activeState)) (map fst targetState);
                       looped = foldl (merge_file baseState activeState targetState targetBranch)
                                      (None, worktree r1, new_writer Map.empty) allFiles;
                       tree = fst (snd looped);
                       w = savePart id (snd (snd looped))
                   in case fst looped of
                        Some e \<Rightarrow>
                          (Inl e,
                           r1\<lparr>worktree := tree,
                              stage := Some \<lparr>manifest_parts = None,
                                             parts_on_disk = written (snd (snd looped))\<rparr>\<rparr>)
                      | None \<Rightarrow>
                          (Inr (''Merged '' @ targetBranch @ ''.''),
                           r1\<lparr>worktree := tree,
                              stage := Some \<lparr>manifest_parts = Some (partNames w),
                                             parts_on_disk = written w\<rparr>\<rparr>))))"

section \<open>Caches: \<open>reset\<close>\<close>

text \<open>
  \<open>reset(hash)\<close>. The head and the manifest are written before \<open>checkout\<close> is called,
  and \<open>checkout\<close> is called without options.
\<close>

definition reset :: "hash option \<Rightarrow> repo \<Rightarrow> (error + string) \<times> repo" where
  "reset hash r =
     (let r1 = r\<lparr>stage := None\<rparr>
      in if falsy hash then (Inr ''Staging area cleared.'', r1)
         else
           (let h = or_empty hash;
                branchName = active_branch r1
            in case local_history r1 branchName of
                 None \<Rightarrow> (Inl CommitNotFound, r1)
               | Some bd \<Rightarrow>
                   if masters bd h = None then (Inl CommitNotFound, r1)
                   else
                     (let r2 = r1\<lparr>active_parent := Some h\<rparr>;
                          r3 = (if h \<in> set (commits bd)
                                then r2\<lparr>local_history := (local_history r2)
                                          (branchName \<mapsto> bd\<lparr>commits := takeWhile (\<lambda>x. x \<noteq> h) (commits bd) @ [h]\<rparr>)\<rparr>
                                else r2)
                      in case checkout branchName False r3 of
                           (Inl e, r4) \<Rightarrow> (Inl e, r4)
                         | (Inr _, r4) \<Rightarrow>
                             (Inr (''Branch is now at '' @ slice h 0 7 @ ''. Working directory updated.''),
                              r4))))"

section \<open>The delta script as the specification words it\<close>

text \<open>
  Where the two scans stop, as natural numbers: the value of \<open>start\<close>, and the values
  of \<open>oldEnd + 1\<close> and \<open>newEnd + 1\<close>.
\<close>

definition start_of :: "string \<Rightarrow> string \<Rightarrow> nat" where
  "start_of p q = nat (scanStart p q 0)"

definition old_stop :: "string \<Rightarrow> string \<Rightarrow> nat" where
  "old_stop p q = nat (fst (scanEnd p q (scanStart p q 0) (int (length p) - 1) (int (length q) - 1)) + 1)"

definition new_stop :: "string \<Rightarrow> string \<Rightarrow> nat" where
  "new_stop p q = nat (snd (scanEnd p q (scanStart p q 0) (int (length p) - 1) (int (length q) - 1)) + 1)"

text \<open>
  The specification's own description: \<open>start\<close> is the length of the longest common
  prefix; the ends step back over the longest common suffix of what follows \<open>start\<close>;
  a delete of \<open>oldEnd - start + 1\<close> characters is emitted when that is positive, then an
  insert of \<open>current[start..=newEnd]\<close> when that is not empty.
\<close>

definition spec_start :: "string \<Rightarrow> string \<Rightarrow> nat" where
  "spec_start previous current = length (longest_common_prefix previous current)"

definition spec_suffix :: "string \<Rightarrow> string \<Rightarrow> nat" where
  "spec_suffix previous current =
     length (longest_common_prefix (rev (drop (spec_start previous current) previous))
                                   (rev (drop (spec_start previous current) current)))"

definition spec_delta :: "string \<Rightarrow> string \<Rightarrow> operation list" where
  "spec_delta previous current =
     (let start = int (spec_start previous current);
          oldEnd = int (length previous) - 1 - int (spec_suffix previous current);
          newEnd = int (length current) - 1 - int (spec_suffix previous current);
          delLen = oldEnd - start + 1;
          ins = take (nat (newEnd + 1 - start)) (drop (nat start) current)
      in (if delLen > 0
          then [Delete start delLen (take (nat delLen) (drop (nat start) previous))]
          else [])
         @ (if ins \<noteq> [] then [Insert start ins] else []))"


section \<open>Reference notions for the statements\<close>


text \<open>
  Invariant 4 of the data model: \<open>head.active.parent\<close> is null or occurs in the manifest
  of the active branch.
\<close>

definition head_invariant :: "repo \<Rightarrow> bool" where
  "head_invariant r =
     (case active_parent r of
        None \<Rightarrow> True
      | Some h \<Rightarrow>
          (case local_history r (active_branch r) of
             None \<Rightarrow> False
           | Some bd \<Rightarrow> h \<in> set (commits bd)))"

section \<open>Example workspaces\<close>

text \<open>
  The workspace after scenario S2: \<open>a.txt\<close> was committed as \<open>"hello\n"\<close> (\<open>h1\<close>),
  then changed to \<open>"Hello\n"\<close> and committed again (\<open>h2\<close>); the working tree is clean.
\<close>

definition example_main :: branchDir where
  "example_main =
     \<lparr>commits = [''h1'', ''h2''],
      masters = [''h1'' \<mapsto> \<lparr>cm_hash = ''h1'', cm_message = ''first'', cm_timestamp = 1,
                              cm_parent = None, cm_payload = Parts [(''h1'', 0)]\<rparr>,
                 ''h2'' \<mapsto> \<lparr>cm_hash = ''h2'', cm_message = ''cap'', cm_timestamp = 2,
                              cm_parent = Some ''h1'', cm_payload = Parts [(''h2'', 0)]\<rparr>],
      part_files = [(''h1'', 0) \<mapsto> [(''a.txt'', CreateFile (''hello'' @ [CHR 0x0A]))],
                    (''h2'', 0) \<mapsto> [(''a.txt'', Ops [Delete 0 1 ''h'', Insert 0 ''H''])]]\<rparr>"

definition example_repo :: repo where
  "example_repo =
     \<lparr>active_branch = ''main'', active_parent = Some ''h2'',
      root_snapshot = Some [], local_history = [''main'' \<mapsto> example_main],
      remote_history = Map.empty, stage = None,
      worktree = [(''a.txt'', ''Hello'' @ [CHR 0x0A])]\<rparr>"

section \<open>Accounting of the split\<close>

text \<open>
  What the split has counted for a part: the sum of \<open>JSON.stringify(value).length\<close> over
  its change values, in UTF-16 code units.
\<close>

definition part_account :: "changes \<Rightarrow> nat" where
  "part_account part = sum_list (map (\<lambda>kv. change_size (snd kv)) part)"

text \<open>
  The bound on a part, in what the split counts: the count does not exceed
  \<open>MAX_PART_SIZE\<close>, except for a part of a single change entry whose one change alone
  exceeds it.
\<close>

definition counted_within :: "changes \<Rightarrow> bool" where
  "counted_within part =
     (part_account part \<le> MAX_PART_SIZE
      \<or> (length part = 1 \<and> MAX_PART_SIZE < part_account part))"

text \<open>The byte length of the JSON encoding of the change values of a part, without the keys.\<close>

definition part_value_bytes :: "changes \<Rightarrow> nat" where
  "part_value_bytes part =
     sum_list (map (\<lambda>kv. utf8_length (stringify (change_json (snd kv)))) part)"

text \<open>
  The invariant of the loop, for a directory that held the files \<open>before\<close>: every part
  file is within the count or was there before, the part being filled is counted at
  most \<open>currentSize\<close>, and \<open>currentSize\<close> is within the bound unless the part being
  filled has at most one entry.
\<close>

definition writer_ok :: "('n \<rightharpoonup> changes) \<Rightarrow> 'n writer \<Rightarrow> bool" where
  "writer_ok before w =
     ((\<forall>name part. written w name = Some part \<longrightarrow> counted_within part \<or> before name = Some part)
      \<and> part_account (currentPartChanges w) \<le> currentSize w
      \<and> (currentSize w \<le> MAX_PART_SIZE \<or> length (currentPartChanges w) \<le> 1))"

text \<open>
  Two new files of 15,999,966 characters \<open>U+00E9\<close> each: the change value of each
  counts 16,000,000 code units and takes 31,999,966 bytes.
\<close>

definition c8_content :: string where
  "c8_content = replicate 15999966 (CHR 0xE9)"

definition c8_changes :: changes where
  "c8_changes = [(''a'', CreateFile c8_content), (''b'', CreateFile c8_content)]"

text \<open>The example workspace with these two changes staged.\<close>

definition c8_repo :: repo where
  "c8_repo = example_repo\<lparr>stage := Some \<lparr>manifest_parts = Some [0],
                                           parts_on_disk = [0 \<mapsto> c8_changes]\<rparr>\<rparr>"

section \<open>The dirty tree, as the specification words it\<close>

text \<open>
  Some working-tree file's content differs from its entry in the state (a file with no
  entry differs from it), or some entry of the state is absent from the working tree.
\<close>

definition spec_dirty :: "(path \<times> string) list \<Rightarrow> file_state \<Rightarrow> bool" where
  "spec_dirty tree state =
     ((\<exists>file text. map_of tree file = Some text \<and> map_of state file \<noteq> Some text)
      \<or> (\<exists>file. map_of state file \<noteq> None \<and> map_of tree file = None))"

text \<open>The example workspace with \<open>a.txt\<close> edited and not staged.\<close>

definition edited_repo :: repo where
  "edited_repo = example_repo\<lparr>worktree := [(''a.txt'', ''edited'')]\<rparr>"

text \<open>
  A workspace that tracks an \<open>.artignore\<close> in its root snapshot and has it unchanged
  in the working tree, beside the edited \<open>a.txt\<close>.
\<close>

definition ignoring_repo :: repo where
  "ignoring_repo = example_repo\<lparr>root_snapshot := Some [[(''.artignore'', ''dist'')]],
                                worktree := [(''.artignore'', ''dist''), (''a.txt'', ''edited'')]\<rparr>"

section \<open>The three states of a merge and the content of a stage being written\<close>

text \<open>The states \<open>merge\<close> compares: base (at the common ancestor), ours and theirs.\<close>

definition merge_base :: "repo \<Rightarrow> string \<Rightarrow> file_state" where
  "merge_base r targetBranch =
     (case (local_history r (active_branch r), local_history r targetBranch) of
        (Some activeManifest, Some targetManifest) \<Rightarrow>
          (case commonAncestor (commits activeManifest) (commits targetManifest) of
             None \<Rightarrow> []
           | Some h \<Rightarrow> getStateByHash r (active_branch r) (Some h))
      | _ \<Rightarrow> [])"

definition merge_ours :: "repo \<Rightarrow> file_state" where
  "merge_ours r = getStateByHash r (active_branch r) (active_parent r)"

definition merge_theirs :: "repo \<Rightarrow> string \<Rightarrow> file_state" where
  "merge_theirs r targetBranch =
     (case local_history r targetBranch of
        None \<Rightarrow> []
      | Some targetManifest \<Rightarrow>
          getStateByHash r targetBranch
            (if commits targetManifest = [] then None else Some (last (commits targetManifest))))"

text \<open>What a reader would load from the parts a writer has written, in manifest order.\<close>

definition loaded :: "nat writer \<Rightarrow> changes" where
  "loaded w =
     fold (\<lambda>partName allChanges.
             case written w partName of
               None \<Rightarrow> allChanges
             | Some partChanges \<Rightarrow> assign allChanges partChanges)
          (partNames w) []"

text \<open>The mapping a writer holds: the parts written, overridden by the part being filled.\<close>

definition held :: "nat writer \<Rightarrow> path \<rightharpoonup> change" where
  "held w = map_of (loaded w) ++ map_of (currentPartChanges w)"

definition numbered :: "nat writer \<Rightarrow> bool" where
  "numbered w = (partNames w = [0..<length (partNames w)]
                 \<and> distinct (map fst (currentPartChanges w)))"

text \<open>
  A workspace with a file named \<open>constructor\<close>, in the root snapshot as \<open>"x"\<close>. Both
  branches share the commit \<open>c0\<close> (which adds \<open>a.txt\<close>); \<open>main\<close> then removed
  \<open>constructor\<close> (\<open>rm\<close>, commit \<open>d1\<close>) and \<open>work\<close> changed it to \<open>"y"\<close> (commit \<open>w1\<close>);
  \<open>work\<close> is active and clean.
\<close>

definition member_main :: branchDir where
  "member_main =
     \<lparr>commits = [''c0'', ''d1''],
      masters = [''c0'' \<mapsto> \<lparr>cm_hash = ''c0'', cm_message = ''first'', cm_timestamp = 1,
                              cm_parent = None, cm_payload = Parts [(''c0'', 0)]\<rparr>,
                 ''d1'' \<mapsto> \<lparr>cm_hash = ''d1'', cm_message = ''remove'', cm_timestamp = 3,
                              cm_parent = Some ''c0'', cm_payload = Parts [(''d1'', 0)]\<rparr>],
      part_files = [(''c0'', 0) \<mapsto> [(''a.txt'', CreateFile ''a'')],
                    (''d1'', 0) \<mapsto> [(''constructor'', DeleteFile)]]\<rparr>"

definition member_work :: branchDir where
  "member_work =
     \<lparr>commits = [''c0'', ''w1''],
      masters = [''c0'' \<mapsto> \<lparr>cm_hash = ''c0'', cm_message = ''first'', cm_timestamp = 1,
                              cm_parent = None, cm_payload = Parts [(''c0'', 0)]\<rparr>,
                 ''w1'' \<mapsto> \<lparr>cm_hash = ''w1'', cm_message = ''change'', cm_timestamp = 2,
                              cm_parent = Some ''c0'', cm_payload = Parts [(''w1'', 0)]\<rparr>],
      part_files = [(''c0'', 0) \<mapsto> [(''a.txt'', CreateFile ''a'')],
                    (''w1'', 0) \<mapsto> [(''constructor'', Ops [Delete 0 1 ''x'', Insert 0 ''y''])]]\<rparr>"

definition member_repo :: repo where
  "member_repo =
     \<lparr>active_branch = ''work'', active_parent = Some ''w1'',
      root_snapshot = Some [[(''constructor'', ''x'')]],
      local_history = [''main'' \<mapsto> member_main, ''work'' \<mapsto> member_work],
      remote_history = Map.empty, stage = None,
      worktree = [(''constructor'', ''y''), (''a.txt'', ''a'')]\<rparr>"

section \<open>Properties of the delta engine\<close>

lemma slice_index_in_range: "0 \<le> i \<Longrightarrow> i \<le> int len \<Longrightarrow> slice_index len i = nat i"
  by (simp add: slice_index_def)

lemma scanStart_props:
  "0 \<le> s \<Longrightarrow> s \<le> int (length p) \<Longrightarrow> s \<le> int (length c) \<Longrightarrow>
   take (nat s) p = take (nat s) c \<Longrightarrow>
   s \<le> scanStart p c s \<and> scanStart p c s \<le> int (length p) \<and> scanStart p c s \<le> int (length c)
   \<and> take (nat (scanStart p c s)) p = take (nat (scanStart p c s)) c
   \<and> (scanStart p c s < int (length p) \<and> scanStart p c s < int (length c)
        \<longrightarrow> p ! nat (scanStart p c s) \<noteq> c ! nat (scanStart p c s))"
proof (induction p c s rule: scanStart.induct)
  case (1 p c s)
  show ?case
  proof (cases "s < int (length p) \<and> s < int (length c) \<and> char_at p s = char_at c s")
    case True
    with "1.prems" have eq: "p ! nat s = c ! nat s"
      by (auto simp: char_at_def split: if_splits)
    from True "1.prems" have lt: "nat s < length p" "nat s < length c" by auto
    have "take (Suc (nat s)) p = take (Suc (nat s)) c"
      using lt eq "1.prems"(4) by (simp add: take_Suc_conv_app_nth)
    moreover have "nat (s + 1) = Suc (nat s)" using "1.prems"(1) by simp
    ultimately have "take (nat (s + 1)) p = take (nat (s + 1)) c" by simp
    with "1.IH" True "1.prems" have IH:
      "s + 1 \<le> scanStart p c (s + 1) \<and> scanStart p c (s + 1) \<le> int (length p) \<and> scanStart p c (s + 1) \<le> int (length c)
       \<and> take (nat (scanStart p c (s + 1))) p = take (nat (scanStart p c (s + 1))) c
       \<and> (scanStart p c (s + 1) < int (length p) \<and> scanStart p c (s + 1) < int (length c)
        \<longrightarrow> p ! nat (scanStart p c (s + 1)) \<noteq> c ! nat (scanStart p c (s + 1)))"
      by simp
    have "scanStart p c s = scanStart p c (s + 1)"
      using True by (subst scanStart.simps) simp
    with IH show ?thesis by simp
  next
    case False
    then have "scanStart p c s = s" by (subst scanStart.simps) auto
    with False "1.prems" show ?thesis by (auto simp: char_at_def)
  qed
qed

lemma scanEnd_props:
  "0 \<le> s \<Longrightarrow> s - 1 \<le> oe \<Longrightarrow> oe < int (length p) \<Longrightarrow> s - 1 \<le> ne \<Longrightarrow> ne < int (length c) \<Longrightarrow>
   drop (nat (oe + 1)) p = drop (nat (ne + 1)) c \<Longrightarrow>
   s - 1 \<le> fst (scanEnd p c s oe ne) \<and> fst (scanEnd p c s oe ne) \<le> oe
   \<and> s - 1 \<le> snd (scanEnd p c s oe ne) \<and> snd (scanEnd p c s oe ne) \<le> ne
   \<and> drop (nat (fst (scanEnd p c s oe ne) + 1)) p = drop (nat (snd (scanEnd p c s oe ne) + 1)) c
   \<and> (s \<le> fst (scanEnd p c s oe ne) \<and> s \<le> snd (scanEnd p c s oe ne)
        \<longrightarrow> p ! nat (fst (scanEnd p c s oe ne)) \<noteq> c ! nat (snd (scanEnd p c s oe ne)))"
proof (induction p c s oe ne rule: scanEnd.induct)
  case (1 p c s oe ne)
  show ?case
  proof (cases "oe \<ge> s \<and> ne \<ge> s \<and> char_at p oe = char_at c ne")
    case True
    with "1.prems" have eq: "p ! nat oe = c ! nat ne"
      by (auto simp: char_at_def split: if_splits)
    from True "1.prems" have lt: "nat oe < length p" "nat ne < length c" by auto
    have "drop (nat oe) p = p ! nat oe # drop (Suc (nat oe)) p"
         "drop (nat ne) c = c ! nat ne # drop (Suc (nat ne)) c"
      using lt by (simp_all add: Cons_nth_drop_Suc)
    moreover have "nat (oe + 1) = Suc (nat oe)" "nat (ne + 1) = Suc (nat ne)"
      using True "1.prems"(1) by auto
    ultimately have "drop (nat (oe - 1 + 1)) p = drop (nat (ne - 1 + 1)) c"
      using eq "1.prems"(6) by simp
    with "1.IH" True "1.prems" have IH:
      "s - 1 \<le> fst (scanEnd p c s (oe - 1) (ne - 1)) \<and> fst (scanEnd p c s (oe - 1) (ne - 1)) \<le> oe - 1
   \<and> s - 1 \<le> snd (scanEnd p c s (oe - 1) (ne - 1)) \<and> snd (scanEnd p c s (oe - 1) (ne - 1)) \<le> ne - 1
   \<and> drop (nat (fst (scanEnd p c s (oe - 1) (ne - 1)) + 1)) p = drop (nat (snd (scanEnd p c s (oe - 1) (ne - 1)) + 1)) c
   \<and> (s \<le> fst (scanEnd p c s (oe - 1) (ne - 1)) \<and> s \<le> snd (scanEnd p c s (oe - 1) (ne - 1))
        \<longrightarrow> p ! nat (fst (scanEnd p c s (oe - 1) (ne - 1))) \<noteq> c ! nat (snd (scanEnd p c s (oe - 1) (ne - 1))))"
      by simp
    have "scanEnd p c s oe ne = scanEnd p c s (oe - 1) (ne - 1)"
      using True by (subst scanEnd.simps) simp
    with IH show ?thesis by simp
  next
    case False
    then have "scanEnd p c s oe ne = (oe, ne)" by (subst scanEnd.simps) auto
    with False "1.prems" show ?thesis by (auto simp: char_at_def)
  qed
qed



lemma slice_prefix: "0 \<le> i \<Longrightarrow> slice s 0 i = take (nat i) s"
  by (simp add: slice_def slice_index_def min_def)

lemma slice_from_nat: "0 \<le> i \<Longrightarrow> slice_from s i = drop (nat i) s"
  by (simp add: slice_from_def slice_index_def min_def)

lemma slice_mid:
  "0 \<le> a \<Longrightarrow> a \<le> b \<Longrightarrow> b \<le> int (length s) \<Longrightarrow>
   slice s a b = take (nat b - nat a) (drop (nat a) s)"
  by (simp add: slice_def slice_index_def min_def)

lemma scan_facts:
  fixes p q :: string
  defines "s \<equiv> scanStart p q 0"
  defines "oe \<equiv> fst (scanEnd p q s (int (length p) - 1) (int (length q) - 1))"
  defines "ne \<equiv> snd (scanEnd p q s (int (length p) - 1) (int (length q) - 1))"
  shows "0 \<le> s" "s \<le> int (length p)" "s \<le> int (length q)"
        "take (nat s) p = take (nat s) q"
        "s < int (length p) \<and> s < int (length q) \<longrightarrow> p ! nat s \<noteq> q ! nat s"
        "s - 1 \<le> oe" "oe < int (length p)" "s - 1 \<le> ne" "ne < int (length q)"
        "drop (nat (oe + 1)) p = drop (nat (ne + 1)) q"
        "s \<le> oe \<and> s \<le> ne \<longrightarrow> p ! nat oe \<noteq> q ! nat ne"
proof -
  have st: "0 \<le> s \<and> s \<le> int (length p) \<and> s \<le> int (length q)
        \<and> take (nat s) p = take (nat s) q
        \<and> (s < int (length p) \<and> s < int (length q) \<longrightarrow> p ! nat s \<noteq> q ! nat s)"
    unfolding s_def using scanStart_props [of 0 p q] by simp
  then show "0 \<le> s" "s \<le> int (length p)" "s \<le> int (length q)"
        "take (nat s) p = take (nat s) q"
        "s < int (length p) \<and> s < int (length q) \<longrightarrow> p ! nat s \<noteq> q ! nat s"
    by simp_all
  have "s - 1 \<le> oe \<and> oe \<le> int (length p) - 1 \<and> s - 1 \<le> ne \<and> ne \<le> int (length q) - 1
     \<and> drop (nat (oe + 1)) p = drop (nat (ne + 1)) q
     \<and> (s \<le> oe \<and> s \<le> ne \<longrightarrow> p ! nat oe \<noteq> q ! nat ne)"
    unfolding oe_def ne_def
    using st scanEnd_props [of s "int (length p) - 1" p "int (length q) - 1" q] by simp
  then show "s - 1 \<le> oe" "oe < int (length p)" "s - 1 \<le> ne" "ne < int (length q)"
        "drop (nat (oe + 1)) p = drop (nat (ne + 1)) q"
        "s \<le> oe \<and> s \<le> ne \<longrightarrow> p ! nat oe \<noteq> q ! nat ne"
    by simp_all
qed


lemma stops_facts:
  shows "start_of p q \<le> old_stop p q" "old_stop p q \<le> length p"
        "start_of p q \<le> new_stop p q" "new_stop p q \<le> length q"
        "take (start_of p q) p = take (start_of p q) q"
        "drop (old_stop p q) p = drop (new_stop p q) q"
        "start_of p q < length p \<and> start_of p q < length q
           \<longrightarrow> p ! start_of p q \<noteq> q ! start_of p q"
        "start_of p q < old_stop p q \<and> start_of p q < new_stop p q
           \<longrightarrow> p ! (old_stop p q - 1) \<noteq> q ! (new_stop p q - 1)"
proof -
  define s where "s = scanStart p q 0"
  define oe where "oe = fst (scanEnd p q s (int (length p) - 1) (int (length q) - 1))"
  define ne where "ne = snd (scanEnd p q s (int (length p) - 1) (int (length q) - 1))"
  note f = scan_facts [of p q, folded s_def, folded oe_def ne_def]
  have S: "start_of p q = nat s" and M: "old_stop p q = nat (oe + 1)"
    and N: "new_stop p q = nat (ne + 1)"
    by (simp_all add: start_of_def old_stop_def new_stop_def s_def oe_def ne_def)
  show "start_of p q \<le> old_stop p q" "old_stop p q \<le> length p"
        "start_of p q \<le> new_stop p q" "new_stop p q \<le> length q"
    using f unfolding S M N by auto
  show "take (start_of p q) p = take (start_of p q) q"
    using f(4) unfolding S .
  show "drop (old_stop p q) p = drop (new_stop p q) q"
    using f(10) unfolding M N .
  show "start_of p q < length p \<and> start_of p q < length q
           \<longrightarrow> p ! start_of p q \<noteq> q ! start_of p q"
    using f(1,5) unfolding S by auto
  have "nat (oe + 1) - 1 = nat oe" "nat (ne + 1) - 1 = nat ne"
    using f by auto
  then show "start_of p q < old_stop p q \<and> start_of p q < new_stop p q
           \<longrightarrow> p ! (old_stop p q - 1) \<noteq> q ! (new_stop p q - 1)"
    using f(1,6,8,11) unfolding S M N by auto
qed

lemma delta_operations_shape:
  assumes "q \<noteq> p"
  shows "delta_operations p q =
      (if old_stop p q > start_of p q
       then [Delete (int (start_of p q)) (int (old_stop p q - start_of p q))
                    (take (old_stop p q - start_of p q) (drop (start_of p q) p))]
       else [])
      @ (if new_stop p q > start_of p q
         then [Insert (int (start_of p q)) (take (new_stop p q - start_of p q) (drop (start_of p q) q))]
         else [])"
proof -
  define s where "s = scanStart p q 0"
  define oe where "oe = fst (scanEnd p q s (int (length p) - 1) (int (length q) - 1))"
  define ne where "ne = snd (scanEnd p q s (int (length p) - 1) (int (length q) - 1))"
  note f = scan_facts [of p q, folded s_def, folded oe_def ne_def]
  define S where "S = start_of p q"
  define M where "M = old_stop p q"
  define N where "N = new_stop p q"
  have S: "S = nat s" and M: "M = nat (oe + 1)" and N: "N = nat (ne + 1)"
    by (simp_all add: S_def M_def N_def start_of_def old_stop_def new_stop_def s_def oe_def ne_def)
  have SN: "S \<le> N" "N \<le> length q" "S \<le> M" "M \<le> length p"
    using stops_facts [of p q] by (simp_all add: S_def M_def N_def)
  have raw: "delta_operations p q =
      (if oe - s + 1 > 0 then [Delete s (oe - s + 1) (slice p s (oe + 1))] else [])
      @ (if length (slice q s (ne + 1)) > 0 then [Insert s (slice q s (ne + 1))] else [])"
    using assms by (simp add: delta_operations_def Let_def s_def oe_def ne_def)
  have sp: "slice p s (oe + 1) = take (M - S) (drop S p)"
    using slice_mid [of s "oe + 1" p] f by (simp add: S M)
  have sq: "slice q s (ne + 1) = take (N - S) (drop S q)"
    using slice_mid [of s "ne + 1" q] f by (simp add: S N)
  have c1: "(oe - s + 1 > 0) = (M > S)" "oe - s + 1 = int (M - S)" "s = int S"
    using f by (auto simp: S M)
  have c2: "(length (take (N - S) (drop S q)) > 0) = (N > S)"
    using SN by simp
  have "delta_operations p q =
      (if M > S then [Delete (int S) (int (M - S)) (take (M - S) (drop S p))] else [])
      @ (if N > S then [Insert (int S) (take (N - S) (drop S q))] else [])"
    unfolding raw sp sq c2 using c1 by simp
  then show ?thesis by (simp only: S_def M_def N_def)
qed

text \<open>
  Claim C1. For all strings \<open>p\<close> and \<open>q\<close>, applying to \<open>p\<close> the operations the delta
  engine produces on \<open>(p, q)\<close>, in list order, with the replay of \<open>getStateByHash\<close>
  (a delete removes \<open>length\<close> characters at \<open>position\<close>, an insert puts \<open>content\<close>
  at \<open>position\<close>), gives exactly \<open>q\<close>.
\<close>

theorem delta_round_trip: "applyOperations p (delta_operations p q) = q"
proof (cases "q = p")
  case True
  then show ?thesis by (simp add: delta_operations_def applyOperations_def)
next
  case False
  define S where "S = start_of p q"
  define M where "M = old_stop p q"
  define N where "N = new_stop p q"
  note f = stops_facts [of p q, folded S_def M_def N_def]
  note ops = delta_operations_shape [OF False, folded S_def M_def N_def]
  have q_split: "take S q @ take (N - S) (drop S q) @ drop N q = q"
  proof -
    have "drop N q = drop (N - S) (drop S q)" using f by simp
    then show ?thesis by (simp del: drop_drop)
  qed
  have del: "applyOperation p (Delete (int S) (int (M - S)) x) = take S p @ drop M p" for x
    using f by (simp add: slice_prefix slice_from_nat)
  have insrt: "applyOperation (take S p @ drop M p) (Insert (int S) y) = take S p @ y @ drop M p" for y
    using f by (simp add: slice_prefix slice_from_nat)
  have after_delete:
    "foldl applyOperation p
       (if M > S then [Delete (int S) (int (M - S)) (take (M - S) (drop S p))] else [])
     = take S p @ drop M p"
  proof (cases "M > S")
    case True
    then show ?thesis using del by simp
  next
    case False
    then have "M = S" using f by simp
    then show ?thesis by simp
  qed
  have after_insert:
    "foldl applyOperation (take S p @ drop M p)
       (if N > S then [Insert (int S) (take (N - S) (drop S q))] else [])
     = take S p @ take (N - S) (drop S q) @ drop M p"
  proof (cases "N > S")
    case True
    then show ?thesis using insrt by simp
  next
    case False
    then show ?thesis by simp
  qed
  have "applyOperations p (delta_operations p q) = take S p @ take (N - S) (drop S q) @ drop M p"
    unfolding applyOperations_def ops foldl_append after_delete after_insert ..
  also have "\<dots> = take S q @ take (N - S) (drop S q) @ drop N q"
    by (simp only: f)
  finally show ?thesis using q_split by simp
qed


theorem delta_round_trip_witness:
  "applyOperations ''abab'' (delta_operations ''abab'' ''ab'') = ''ab''"
  by (rule delta_round_trip)

lemma lcp_append: "longest_common_prefix (xs @ ys) (xs @ zs) = xs @ longest_common_prefix ys zs"
  by (induction xs) auto

lemma lcp_Nil: "ys = [] \<or> zs = [] \<or> hd ys \<noteq> hd zs \<Longrightarrow> longest_common_prefix ys zs = []"
  by (cases ys; cases zs) auto

lemma start_of_spec: "start_of p q = spec_start p q"
proof -
  define S where "S = start_of p q"
  note f = stops_facts [of p q, folded S_def]
  have e1: "take S p @ drop S p = p" by simp
  have e2: "take S p @ drop S q = q" by (simp add: f(5))
  have "longest_common_prefix p q
      = take S p @ longest_common_prefix (drop S p) (drop S q)"
    using lcp_append [of "take S p" "drop S p" "drop S q"] unfolding e1 e2 .
  moreover have "longest_common_prefix (drop S p) (drop S q) = []"
  proof (rule lcp_Nil)
    show "drop S p = [] \<or> drop S q = [] \<or> hd (drop S p) \<noteq> hd (drop S q)"
      using f(7) by (auto simp: hd_drop_conv_nth)
  qed
  ultimately have "length (longest_common_prefix p q) = S"
    using f(1,2) by simp
  then show ?thesis by (simp add: spec_start_def S_def)
qed

lemma stops_spec:
  "length p - old_stop p q = spec_suffix p q \<and> length q - new_stop p q = spec_suffix p q"
proof -
  define S where "S = start_of p q"
  define M where "M = old_stop p q"
  define N where "N = new_stop p q"
  note f = stops_facts [of p q, folded S_def M_def N_def]
  define A where "A = take (M - S) (drop S p)"
  define B where "B = take (N - S) (drop S q)"
  have "drop S p = A @ drop M p"
  proof -
    have "drop M p = drop (M - S) (drop S p)" using f by simp
    then show ?thesis unfolding A_def by (simp del: drop_drop)
  qed
  moreover have "drop S q = B @ drop M p"
  proof -
    have "drop N q = drop (N - S) (drop S q)" using f by simp
    then show ?thesis unfolding B_def f(6) by (simp del: drop_drop)
  qed
  ultimately have "longest_common_prefix (rev (drop S p)) (rev (drop S q))
      = rev (drop M p) @ longest_common_prefix (rev A) (rev B)"
    by (simp add: lcp_append)
  moreover have "longest_common_prefix (rev A) (rev B) = []"
  proof (rule lcp_Nil)
    have "last A = p ! (M - 1)" if "A \<noteq> []"
    proof -
      from that have lt: "S < M" unfolding A_def by auto
      have len: "length A = M - S" unfolding A_def using f by simp
      have "last A = A ! (M - S - 1)" using that len by (simp add: last_conv_nth)
      also have "\<dots> = drop S p ! (M - S - 1)" unfolding A_def using lt by simp
      also have "\<dots> = p ! (S + (M - S - 1))" using f lt by simp
      also have "S + (M - S - 1) = M - 1" using lt by simp
      finally show ?thesis .
    qed
    moreover have "last B = q ! (N - 1)" if "B \<noteq> []"
    proof -
      from that have lt: "S < N" unfolding B_def by auto
      have len: "length B = N - S" unfolding B_def using f by simp
      have "last B = B ! (N - S - 1)" using that len by (simp add: last_conv_nth)
      also have "\<dots> = drop S q ! (N - S - 1)" unfolding B_def using lt by simp
      also have "\<dots> = q ! (S + (N - S - 1))" using f lt by simp
      also have "S + (N - S - 1) = N - 1" using lt by simp
      finally show ?thesis .
    qed
    moreover have "A \<noteq> [] \<Longrightarrow> S < M" "B \<noteq> [] \<Longrightarrow> S < N"
      unfolding A_def B_def by auto
    ultimately show "rev A = [] \<or> rev B = [] \<or> hd (rev A) \<noteq> hd (rev B)"
      using f(8) by (auto simp: hd_rev)
  qed
  ultimately have k: "spec_suffix p q = length p - M"
    by (simp add: spec_suffix_def start_of_spec [symmetric] S_def [symmetric])
  have "length (drop M p) = length (drop N q)" using f(6) by simp
  then show ?thesis using k by (simp add: M_def N_def)
qed

lemma lcp_same: "longest_common_prefix xs xs = xs"
  by (induction xs) auto

lemma spec_delta_same: "spec_delta p p = []"
  by (simp add: spec_delta_def spec_start_def spec_suffix_def lcp_same)

lemma delta_operations_spec: "delta_operations p q = spec_delta p q"
proof (cases "q = p")
  case True
  then show ?thesis by (simp add: spec_delta_same delta_operations_def)
next
  case False
  define S where "S = start_of p q"
  define M where "M = old_stop p q"
  define N where "N = new_stop p q"
  define k where "k = spec_suffix p q"
  note f = stops_facts [of p q, folded S_def M_def N_def]
  note ops = delta_operations_shape [OF False, folded S_def M_def N_def]
  have st: "spec_start p q = S" by (simp add: S_def start_of_spec)
  have k1: "int (length p) - 1 - int k = int M - 1"
    using stops_spec [of p q, THEN conjunct1] f(2) by (simp add: k_def M_def)
  have k2: "int (length q) - 1 - int k = int N - 1"
    using stops_spec [of p q, THEN conjunct2] f(4) by (simp add: k_def N_def)
  have d: "int M - 1 - int S + 1 = int (M - S)" "int N - 1 + 1 - int S = int (N - S)"
    using f by simp_all
  have ne: "(take (N - S) (drop S q) \<noteq> []) = (N > S)"
    using f by auto
  have "spec_delta p q =
      (if M > S then [Delete (int S) (int (M - S)) (take (M - S) (drop S p))] else [])
      @ (if N > S then [Insert (int S) (take (N - S) (drop S q))] else [])"
    unfolding spec_delta_def Let_def st k_def [symmetric] k1 k2 d nat_int ne
    by simp
  then show ?thesis unfolding ops ..
qed

text \<open>
  Claim C2. The operations of the delta engine are exactly those of the specification:
  with \<open>start\<close> the length of the longest common prefix and the ends found by the
  common-suffix scan, a delete at \<open>start\<close> of length \<open>oldEnd - start + 1\<close> if and only
  if that length is positive, followed by an insert at \<open>start\<close> of
  \<open>current[start..=newEnd]\<close> if and only if that slice is not empty. Identical strings
  give no operation, and from \<open>"hello\n"\<close> to \<open>"Hello\n"\<close> the script is a delete of
  length 1 at 0 followed by an insert of \<open>"H"\<close> at 0.
\<close>

theorem delta_matches_spec:
  "delta_operations previous current = spec_delta previous current
   \<and> delta_operations previous previous = []
   \<and> delta_operations (''hello'' @ [CHR 0x0A]) (''Hello'' @ [CHR 0x0A])
       = [Delete 0 1 ''h'', Insert 0 ''H'']"
proof (intro conjI)
  show "delta_operations previous current = spec_delta previous current"
    by (rule delta_operations_spec)
  show "delta_operations previous previous = []"
    by (simp add: delta_operations_def)
  show "delta_operations (''hello'' @ [CHR 0x0A]) (''Hello'' @ [CHR 0x0A])
       = [Delete 0 1 ''h'', Insert 0 ''H'']"
    by code_simp
qed


theorem delta_matches_spec_witness:
  "delta_operations ''abcd'' ''abXd'' = spec_delta ''abcd'' ''abXd''
   \<and> delta_operations ''abcd'' ''abcd'' = []
   \<and> delta_operations (''hello'' @ [CHR 0x0A]) (''Hello'' @ [CHR 0x0A])
       = [Delete 0 1 ''h'', Insert 0 ''H'']"
  by (rule delta_matches_spec)

section \<open>State reconstruction\<close>


lemma dec_digit: "n < 10 \<Longrightarrow> dec n = [''0123456789'' ! n]"
  by (subst dec.simps) simp

lemmas eval_defs = example_repo_def example_main_def getStateByHash_def falsy_def or_empty_def
  rootState_def fullChanges_def assign_def applyChange_def applyOperations_def
  slice_def slice_from_def slice_index_def Let_def




section \<open>What the operations keep\<close>

text \<open>An empty mapping: \<open>savePaginatedChanges\<close> writes no part, the copy in \<open>add\<close> one.\<close>

lemma savePaginatedChanges_empty:
  "savePaginatedChanges [] = \<lparr>manifest_parts = Some [], parts_on_disk = Map.empty\<rparr>"
  by (simp add: savePaginatedChanges_def savePart_def new_writer_def)

lemma add_save_empty:
  "add_save [] = \<lparr>manifest_parts = Some [0], parts_on_disk = [0 \<mapsto> []]\<rparr>"
  by (simp add: add_save_def writePart_def new_writer_def)

text \<open>
  \<open>commit\<close> fails without a stage directory, and a failed \<open>commit\<close> has written
  nothing; in every outcome the head stays null or in the manifest of the active branch.
\<close>

lemma commit_without_stage:
  "message \<noteq> [] \<Longrightarrow> stage r = None \<Longrightarrow> commit sha1 now message r = (Inl NothingToCommit, r)"
  by (simp add: commit_def)

lemma commit_failure_frame:
  "fst (commit sha1 now message r) = Inl e \<Longrightarrow> snd (commit sha1 now message r) = r"
  by (auto simp: commit_def Let_def split: if_splits option.splits)

lemma commit_keeps_head_invariant:
  "head_invariant r \<Longrightarrow> head_invariant (snd (commit sha1 now message r))"
  by (auto simp: commit_def Let_def head_invariant_def split: if_splits option.splits)

text \<open>\<open>branch\<close> and \<open>checkout\<close>, forced or not, keep the head in the manifest as well.\<close>

lemma branch_keeps_head_invariant:
  "head_invariant r \<Longrightarrow> head_invariant (snd (branch name r))"
  by (auto simp: branch_def Let_def head_invariant_def split: if_splits option.splits)

lemma checkout_keeps_head_invariant:
  assumes "head_invariant r"
  shows "head_invariant (snd (checkout branchName force r))"
proof -
  define r1 where "r1 = (if branchName \<noteq> [] \<and> local_history r branchName = None
                         then snd (branch branchName r) else r)"
  have inv1: "head_invariant r1"
    unfolding r1_def using assms branch_keeps_head_invariant by simp
  define created where "created = (if branchName \<noteq> [] \<and> local_history r branchName = None
            then branch branchName r else (Inr [], r))"
  have snd_created: "snd created = r1" by (simp add: created_def r1_def)
  show ?thesis
  proof (cases "fst created")
    case (Inl e)
    then have "checkout branchName force r = (Inl e, r1)"
      using snd_created
      by (cases created) (simp add: checkout_def created_def [symmetric])
    then show ?thesis using inv1 by simp
  next
    case (Inr msg)
    then have c: "created = (Inr msg, r1)" using snd_created by (cases created) simp
    show ?thesis
    proof (cases "\<not> force \<and> isDirty (worktree r1) (getStateByHash r1 (active_branch r1) (active_parent r1))")
      case True
      then have "checkout branchName force r = (Inl LocalChangesWouldBeOverwritten, r1)"
        using c by (simp add: checkout_def created_def [symmetric] Let_def)
      then show ?thesis using inv1 by simp
    next
      case False
      show ?thesis
      proof (cases "local_history r1 branchName")
        case None
        then have "checkout branchName force r = (Inl ENOENT, r1)"
          using c False by (auto simp: checkout_def created_def [symmetric] Let_def)
        then show ?thesis using inv1 by simp
      next
        case (Some bd)
        then have "active_branch (snd (checkout branchName force r)) = branchName
              \<and> active_parent (snd (checkout branchName force r))
                  = (if length (commits bd) > 0 then Some (last (commits bd)) else None)
              \<and> local_history (snd (checkout branchName force r)) = local_history r1"
          using c False by (auto simp: checkout_def created_def [symmetric] Let_def)
        then show ?thesis using Some by (auto simp: head_invariant_def)
      qed
    qed
  qed
qed

text \<open>
  \<open>reset(h)\<close> for a commit of the active branch that is in its manifest: whether the
  checkout at its end fails or not, the head is \<open>h\<close> afterwards and the manifest is cut
  after the first \<open>h\<close>.
\<close>

lemma reset_moves_head:
  assumes "h \<noteq> []"
    and "local_history r (active_branch r) = Some bd"
    and "masters bd h \<noteq> None"
    and "h \<in> set (commits bd)"
  shows "active_branch (snd (reset (Some h) r)) = active_branch r
         \<and> active_parent (snd (reset (Some h) r)) = Some h
         \<and> map_option commits (local_history (snd (reset (Some h) r)) (active_branch r))
             = Some (takeWhile (\<lambda>x. x \<noteq> h) (commits bd) @ [h])"
proof -
  define bd' where "bd' = bd\<lparr>commits := takeWhile (\<lambda>x. x \<noteq> h) (commits bd) @ [h]\<rparr>"
  define r3 where "r3 = r\<lparr>stage := None, active_parent := Some h,
                           local_history := (local_history r)(active_branch r \<mapsto> bd')\<rparr>"
  have ne: "active_branch r \<noteq> [] \<or> True" by simp
  have ex: "local_history r3 (active_branch r) = Some bd'" by (simp add: r3_def)
  have co: "snd (checkout (active_branch r) False r3) = r3
            \<or> snd (checkout (active_branch r) False r3)
                = r3\<lparr>worktree := worktree (snd (checkout (active_branch r) False r3)),
                      active_branch := active_branch r,
                      active_parent := Some (last (commits bd'))\<rparr>"
    using ex by (auto simp: checkout_def Let_def bd'_def)
  have last: "last (commits bd') = h" by (simp add: bd'_def)
  have rs: "snd (reset (Some h) r) = snd (checkout (active_branch r) False r3)"
    using assms
    by (auto simp: reset_def falsy_def or_empty_def Let_def r3_def bd'_def split: prod.splits sum.splits)
  have "active_branch (snd (checkout (active_branch r) False r3)) = active_branch r
        \<and> active_parent (snd (checkout (active_branch r) False r3)) = Some h
        \<and> local_history (snd (checkout (active_branch r) False r3)) (active_branch r) = Some bd'"
    using co
  proof
    assume a: "snd (checkout (active_branch r) False r3) = r3"
    show ?thesis unfolding a by (simp add: r3_def)
  next
    assume a: "snd (checkout (active_branch r) False r3)
                = r3\<lparr>worktree := worktree (snd (checkout (active_branch r) False r3)),
                      active_branch := active_branch r,
                      active_parent := Some (last (commits bd'))\<rparr>"
    show ?thesis by (subst a, subst a, subst a) (simp add: r3_def last)
  qed
  then show ?thesis unfolding rs by (simp add: bd'_def)
qed

section \<open>The operations on the example workspace\<close>

text \<open>
  Claim C3. After \<open>reset(h)\<close> with \<open>h\<close> in the manifest of the active branch, the head
  and the manifest end at \<open>h\<close>, and the working tree is then materialized by a forced
  checkout. \<open>reset\<close> calls \<open>checkout(branchName)\<close> without \<open>force\<close>, after it has moved
  the head: the dirty test compares the working tree with the state at \<open>h\<close>. On the
  clean example workspace \<open>reset('h1')\<close> moves the head and truncates the manifest,
  then fails with the error of a dirty tree and leaves \<open>a.txt\<close> as it was.
\<close>

theorem reset_does_not_force:
  "fst (reset (Some ''h1'') example_repo) = Inl LocalChangesWouldBeOverwritten
   \<and> worktree (snd (reset (Some ''h1'') example_repo)) = [(''a.txt'', ''Hello'' @ [CHR 0x0A])]
   \<and> active_parent (snd (reset (Some ''h1'') example_repo)) = Some ''h1''
   \<and> map_option commits (local_history (snd (reset (Some ''h1'') example_repo)) ''main'') = Some [''h1'']"
  by (simp add: reset_def checkout_def isDirty_def startsWith_art_def eval_defs)

text \<open>The forced checkout, as \<open>stash\<close> calls it, does write the state at \<open>h1\<close>.\<close>

lemma forced_checkout_after_reset:
  "worktree (snd (checkout ''main'' True (snd (reset (Some ''h1'') example_repo))))
     = [(''a.txt'', ''hello'' @ [CHR 0x0A])]"
  by (simp add: reset_def checkout_def isDirty_def startsWith_art_def eval_defs)

text \<open>
  Claim C4. Every operation keeps \<open>head.active.parent\<close> null or in the manifest of the
  active branch, also a reset to a hash whose commit file exists but which is not in
  the manifest. After the \<open>reset('h1')\<close> above, \<open>h2.json\<close> is still in the branch
  directory and \<open>h2\<close> is no longer in the manifest; \<open>reset('h2')\<close> then writes \<open>h2\<close>
  as the head, \<open>checkout\<close> fails on the dirty tree, and the head stays outside the
  manifest.
\<close>

theorem reset_breaks_head_invariant:
  "head_invariant example_repo
   \<and> head_invariant (snd (reset (Some ''h1'') example_repo))
   \<and> fst (reset (Some ''h2'') (snd (reset (Some ''h1'') example_repo)))
        = Inl LocalChangesWouldBeOverwritten
   \<and> active_parent (snd (reset (Some ''h2'') (snd (reset (Some ''h1'') example_repo)))) = Some ''h2''
   \<and> map_option commits (local_history (snd (reset (Some ''h2'') (snd (reset (Some ''h1'') example_repo)))) ''main'')
        = Some [''h1'']
   \<and> \<not> head_invariant (snd (reset (Some ''h2'') (snd (reset (Some ''h1'') example_repo))))"
  by (simp add: head_invariant_def reset_def checkout_def isDirty_def startsWith_art_def eval_defs)

text \<open>
  Claim C9. Saving an empty change mapping gives a manifest with \<open>parts: []\<close> and no
  part file, also through the stage persistence of \<open>add\<close>. The closure of \<open>add\<close> that
  writes a part has no early return on an empty part: adding the unchanged \<open>a.txt\<close> of
  the example workspace stages nothing, and writes \<open>part.0.json\<close> with no change in it
  and a manifest that lists it.
\<close>

theorem add_writes_empty_part:
  "fst (add (\<lambda>file. False) ''a.txt'' example_repo) = Inr ''Added 1 file(s) to stage.''
   \<and> getStagedChanges (snd (add (\<lambda>file. False) ''a.txt'' example_repo)) = []
   \<and> stage (snd (add (\<lambda>file. False) ''a.txt'' example_repo))
       = Some \<lparr>manifest_parts = Some [0], parts_on_disk = [0 \<mapsto> []]\<rparr>"
  by (simp add: add_def add_file_def add_entry_def delta_operations_def add_save_def writePart_def
        new_writer_def getStagedChanges_def getPaginatedChanges_def dec_digit eval_defs)

text \<open>
  Claim C5. \<open>commit\<close> fails when the stage is absent or its merged change set is empty,
  and then creates no commit, appends nothing to the manifest and leaves the head.
  \<open>commit\<close> only tests that the stage directory exists. On the stage that the \<open>add\<close>
  above leaves, whose change set is empty, it succeeds for every digest and clock: it
  writes a commit master with no part, appends its hash to the manifest and moves the
  head to it.
\<close>

theorem commit_of_empty_stage:
  "fst (commit sha1 now ''empty'' (snd (add (\<lambda>file. False) ''a.txt'' example_repo)))
     = Inr (''[main '' @ slice (sha1 (''{}'' @ dec now @ ''empty'')) 0 7 @ ''] empty'')
   \<and> active_parent (snd (commit sha1 now ''empty'' (snd (add (\<lambda>file. False) ''a.txt'' example_repo))))
       = Some (sha1 (''{}'' @ dec now @ ''empty''))
   \<and> map_option commits
        (local_history (snd (commit sha1 now ''empty'' (snd (add (\<lambda>file. False) ''a.txt'' example_repo)))) ''main'')
       = Some [''h1'', ''h2'', sha1 (''{}'' @ dec now @ ''empty'')]
   \<and> Option.bind
        (local_history (snd (commit sha1 now ''empty'' (snd (add (\<lambda>file. False) ''a.txt'' example_repo)))) ''main'')
        (\<lambda>bd. map_option cm_payload (masters bd (sha1 (''{}'' @ dec now @ ''empty''))))
       = Some (Parts [])"
  by (simp add: commit_def savePart_def changes_json_def
        add_def add_file_def add_entry_def delta_operations_def add_save_def writePart_def
        new_writer_def getStagedChanges_def getPaginatedChanges_def dec_digit eval_defs)
section \<open>Merging\<close>

lemma map_of_assign:
  "distinct (map fst b) \<Longrightarrow> map_of (assign a b) = map_of a ++ map_of b"
proof (induction b arbitrary: a)
  case Nil
  then show ?case by (simp add: assign_def)
next
  case (Cons kv b)
  have fresh: "fst kv \<notin> dom (map_of b)"
    using Cons.prems by (auto simp: dom_map_of_conv_image_fst)
  have "map_of (assign a (kv # b)) = map_of (assign (AList.update (fst kv) (snd kv) a) b)"
    by (simp add: assign_def)
  also have "\<dots> = map_of (AList.update (fst kv) (snd kv) a) ++ map_of b"
    using Cons by simp
  also have "\<dots> = (map_of a)(fst kv \<mapsto> snd kv) ++ map_of b"
    by (simp only: AList.update_conv')
  also have "\<dots> = (map_of a ++ map_of b)(fst kv \<mapsto> snd kv)"
    using fresh by (rule map_add_upd_left)
  also have "\<dots> = map_of a ++ map_of (kv # b)"
    by (cases kv) simp
  finally show ?case .
qed

lemma loaded_writePart:
  assumes "numbered w"
  shows "loaded (writePart id w) = assign (loaded w) (currentPartChanges w)"
proof -
  define n where "n = length (partNames w)"
  define F where "F = (\<lambda>partName allChanges.
             case written w partName of
               None \<Rightarrow> allChanges
             | Some partChanges \<Rightarrow> assign allChanges partChanges)"
  define F' where "F' = (\<lambda>partName allChanges.
             case ((written w)(n \<mapsto> currentPartChanges w)) partName of
               None \<Rightarrow> allChanges
             | Some partChanges \<Rightarrow> assign allChanges partChanges)"
  have names: "partNames w = [0..<n]" using assms by (simp add: numbered_def n_def)
  have same: "fold F' (partNames w) [] = fold F (partNames w) []"
    by (rule fold_cong) (auto simp: names F_def F'_def)
  have "loaded (writePart id w) = fold F' (partNames w @ [n]) []"
    by (simp add: loaded_def writePart_def F'_def n_def)
  also have "\<dots> = F' n (fold F' (partNames w) [])" by simp
  also have "\<dots> = assign (fold F (partNames w) []) (currentPartChanges w)"
    unfolding same by (simp add: F'_def)
  finally show ?thesis by (simp add: loaded_def F_def)
qed

lemma savePart_held:
  assumes "numbered w"
  shows "numbered (savePart id w) \<and> held (savePart id w) = held w"
proof (cases "currentPartChanges w = []")
  case True
  then show ?thesis using assms by (simp add: savePart_def)
next
  case False
  have l: "loaded (writePart id w) = assign (loaded w) (currentPartChanges w)"
    using assms by (rule loaded_writePart)
  have d: "distinct (map fst (currentPartChanges w))" using assms by (simp add: numbered_def)
  have "held (writePart id w) = held w"
    unfolding held_def l map_of_assign [OF d] by (simp add: writePart_def)
  moreover have "numbered (writePart id w)"
    using assms by (simp add: numbered_def writePart_def)
  ultimately show ?thesis using False by (simp add: savePart_def)
qed

lemma loaded_current:
  "loaded (w\<lparr>currentPartChanges := c, currentSize := s\<rparr>) = loaded w"
  by (simp add: loaded_def)

lemma place_held:
  assumes "numbered w"
  shows "numbered (place (savePart id) b w (k, v))
         \<and> held (place (savePart id) b w (k, v)) = (held w)(k \<mapsto> v)"
proof -
  define w' where "w' = (if currentSize w + change_size v > MAX_PART_SIZE
                            \<and> (if b then length (currentPartChanges w) > 0 else True)
                         then savePart id w else w)"
  have w': "numbered w' \<and> held w' = held w"
    unfolding w'_def using savePart_held [OF assms] assms by simp
  have p: "place (savePart id) b w (k, v)
           = w'\<lparr>currentPartChanges := AList.update k v (currentPartChanges w'),
                currentSize := currentSize w' + change_size v\<rparr>"
    by (simp add: place_def Let_def w'_def)
  have "numbered (place (savePart id) b w (k, v))"
    unfolding p using w' by (simp add: numbered_def AList.distinct_update)
  moreover have "held (place (savePart id) b w (k, v)) = (held w')(k \<mapsto> v)"
    unfolding p held_def loaded_current by (simp add: AList.update_conv')
  ultimately show ?thesis using w' by simp
qed


lemmas place_numbered = place_held [THEN conjunct1]
lemmas place_content = place_held [THEN conjunct2]


lemma getStateByHash_stage:
  "getStateByHash (r\<lparr>stage := st\<rparr>) b t = getStateByHash r b t"
  by (simp add: getStateByHash_def split: option.splits)

lemma merge_file_numbered:
  "numbered (snd (snd acc)) \<Longrightarrow> numbered (snd (snd (merge_file B A T tb acc f)))"
  by (simp add: merge_file_def Let_def place_numbered split: jsvalue.splits)

lemma merge_file_thrown: "fst acc \<noteq> None \<Longrightarrow> merge_file B A T tb acc f = acc"
  by (simp add: merge_file_def Let_def)

lemma merge_loop_thrown: "fst acc \<noteq> None \<Longrightarrow> foldl (merge_file B A T tb) acc fs = acc"
  by (induction fs) (simp_all add: merge_file_thrown)

lemma merge_loop_returns:
  "fst (foldl (merge_file B A T tb) acc fs) = None \<Longrightarrow> fst acc = None"
  using merge_loop_thrown [of acc B A T tb fs] by (cases "fst acc = None") simp_all

lemma merge_file_other:
  assumes "p \<noteq> f" and "numbered (snd (snd acc))"
  shows "map_of (fst (snd (merge_file B A T tb acc f))) p = map_of (fst (snd acc)) p
         \<and> held (snd (snd (merge_file B A T tb acc f))) p = held (snd (snd acc)) p"
  using assms
  by (simp add: merge_file_def Let_def place_content AList.update_conv' AList.delete_conv'
        split: jsvalue.splits)

lemma merge_file_conflict:
  assumes "get_property B p \<noteq> get_property A p" and "get_property B p \<noteq> get_property T p"
    and "get_property A p \<noteq> get_property T p" and "numbered (snd (snd acc))"
    and "fst acc = None"
  shows "map_of (fst (snd (merge_file B A T tb acc p))) p
           = Some (conflictContent (get_property A p) (get_property T p) tb)
         \<and> held (snd (snd (merge_file B A T tb acc p))) p
           = Some (CreateFile (conflictContent (get_property A p) (get_property T p) tb))"
  using assms
  by (simp add: merge_file_def Let_def place_content AList.update_conv')

lemma merge_loop_numbered:
  "numbered (snd (snd acc)) \<Longrightarrow> numbered (snd (snd (foldl (merge_file B A T tb) acc fs)))"
  by (induction fs arbitrary: acc) (simp_all add: merge_file_numbered)

lemma merge_loop_other:
  "p \<notin> set fs \<Longrightarrow> numbered (snd (snd acc)) \<Longrightarrow>
   map_of (fst (snd (foldl (merge_file B A T tb) acc fs))) p = map_of (fst (snd acc)) p
   \<and> held (snd (snd (foldl (merge_file B A T tb) acc fs))) p = held (snd (snd acc)) p"
proof (induction fs arbitrary: acc)
  case Nil
  then show ?case by simp
next
  case (Cons f fs)
  have "p \<noteq> f" "p \<notin> set fs" using Cons.prems(1) by auto
  then show ?case
    using Cons.IH [of "merge_file B A T tb acc f"] Cons.prems(2)
      merge_file_other [of p f acc B A T tb] merge_file_numbered [of acc B A T tb f]
    by simp
qed

lemma merge_loop_conflict:
  assumes "get_property B p \<noteq> get_property A p" and "get_property B p \<noteq> get_property T p"
    and "get_property A p \<noteq> get_property T p"
  shows "p \<in> set fs \<Longrightarrow> numbered (snd (snd acc)) \<Longrightarrow>
   fst (foldl (merge_file B A T tb) acc fs) = None \<Longrightarrow>
   map_of (fst (snd (foldl (merge_file B A T tb) acc fs))) p
     = Some (conflictContent (get_property A p) (get_property T p) tb)
   \<and> held (snd (snd (foldl (merge_file B A T tb) acc fs))) p
     = Some (CreateFile (conflictContent (get_property A p) (get_property T p) tb))"
proof (induction fs arbitrary: acc)
  case Nil
  then show ?case by simp
next
  case (Cons f fs)
  define acc' where "acc' = merge_file B A T tb acc f"
  have n': "numbered (snd (snd acc'))"
    unfolding acc'_def using Cons.prems(2) by (rule merge_file_numbered)
  have ret: "fst (foldl (merge_file B A T tb) acc' fs) = None"
    using Cons.prems(3) by (simp add: acc'_def)
  have e0: "fst acc = None"
    using Cons.prems(3) by (rule merge_loop_returns)
  show ?case
  proof (cases "p \<in> set fs")
    case True
    then show ?thesis using Cons.IH [OF True n' ret] by (simp add: acc'_def)
  next
    case False
    with Cons.prems(1) have "f = p" by simp
    then have here: "map_of (fst (snd acc')) p
           = Some (conflictContent (get_property A p) (get_property T p) tb)
         \<and> held (snd (snd acc')) p
           = Some (CreateFile (conflictContent (get_property A p) (get_property T p) tb))"
      unfolding acc'_def using merge_file_conflict [OF assms Cons.prems(2) e0] by simp
    then show ?thesis
      using merge_loop_other [OF False n', of B A T tb] by (simp add: acc'_def)
  qed
qed

lemma key_of_lookup: "map_of al k \<noteq> None \<Longrightarrow> k \<in> set (map fst al)"
  by (induction al) (auto split: if_splits)

lemma lookup_of_key: "k \<in> set (map fst al) \<Longrightarrow> map_of al k \<noteq> None"
  by (induction al) auto

lemma loaded_final:
  assumes "numbered w"
  shows "map_of (getPaginatedChanges
                   (Some \<lparr>manifest_parts = Some (partNames (savePart id w)),
                          parts_on_disk = written (savePart id w)\<rparr>)) = held w"
proof -
  have "getPaginatedChanges
          (Some \<lparr>manifest_parts = Some (partNames (savePart id w)),
                 parts_on_disk = written (savePart id w)\<rparr>) = loaded (savePart id w)"
    by (simp add: getPaginatedChanges_def loaded_def)
  moreover have "held (savePart id w) = map_of (loaded (savePart id w))"
    by (simp add: held_def savePart_def writePart_def)
  ultimately show ?thesis using savePart_held [OF assms] by simp
qed


text \<open>
  \<open>merge\<close> changes only the stage directory and the working tree, whatever its outcome.
\<close>

lemma merge_frame:
  "active_branch (snd (merge targetBranch r)) = active_branch r
   \<and> active_parent (snd (merge targetBranch r)) = active_parent r
   \<and> local_history (snd (merge targetBranch r)) = local_history r
   \<and> remote_history (snd (merge targetBranch r)) = remote_history r
   \<and> root_snapshot (snd (merge targetBranch r)) = root_snapshot r"
  by (simp add: merge_def Let_def split: option.splits)

text \<open>
  When \<open>merge\<close> returns, every path at which the three values read differ pairwise holds
  the conflict text in the working tree, and the stage, as \<open>getStagedChanges\<close> loads
  it, holds a \<open>createFile\<close> with that text: the split into parts loses nothing.
\<close>

lemma merge_conflict_marked:
  assumes ret: "fst (merge targetBranch r) = Inr msg"
    and c1: "get_property (merge_base r targetBranch) filePath \<noteq> get_property (merge_ours r) filePath"
    and c2: "get_property (merge_base r targetBranch) filePath
               \<noteq> get_property (merge_theirs r targetBranch) filePath"
    and c3: "get_property (merge_ours r) filePath \<noteq> get_property (merge_theirs r targetBranch) filePath"
  shows "map_of (worktree (snd (merge targetBranch r))) filePath
            = Some (conflictContent (get_property (merge_ours r) filePath)
                      (get_property (merge_theirs r targetBranch) filePath) targetBranch)
          \<and> map_of (getStagedChanges (snd (merge targetBranch r))) filePath
            = Some (CreateFile (conflictContent (get_property (merge_ours r) filePath)
                      (get_property (merge_theirs r targetBranch) filePath) targetBranch))"
proof -
  from ret obtain am tm where am: "local_history r (active_branch r) = Some am"
    and tm: "local_history r targetBranch = Some tm"
    by (auto simp: merge_def Let_def split: option.splits)
  define B where "B = merge_base r targetBranch"
  define A where "A = merge_ours r"
  define T where "T = merge_theirs r targetBranch"
  define allFiles where
    "allFiles = map fst A @ filter (\<lambda>k. k \<notin> set (map fst A)) (map fst T)"
  define looped where
    "looped = foldl (merge_file B A T targetBranch)
                (None, worktree r, new_writer Map.empty) allFiles"
  have Bdef: "(if commonAncestor (commits am) (commits tm) \<noteq> None
               then getStateByHash r (active_branch r) (commonAncestor (commits am) (commits tm))
               else []) = B"
    unfolding B_def merge_base_def using am tm by (auto split: option.splits)
  have Tdef: "getStateByHash r targetBranch
                (if commits tm = [] then None else Some (last (commits tm))) = T"
    unfolding T_def merge_theirs_def using tm by simp
  have m: "fst (merge targetBranch r)
             = (case fst looped of Some e \<Rightarrow> Inl e
                | None \<Rightarrow> Inr (''Merged '' @ targetBranch @ ''.''))
           \<and> (fst looped = None \<longrightarrow>
                worktree (snd (merge targetBranch r)) = fst (snd looped)
                \<and> stage (snd (merge targetBranch r))
                    = Some \<lparr>manifest_parts = Some (partNames (savePart id (snd (snd looped)))),
                             parts_on_disk = written (savePart id (snd (snd looped)))\<rparr>)"
    unfolding looped_def allFiles_def A_def merge_ours_def Bdef [symmetric] Tdef [symmetric]
    using am tm by (simp add: merge_def Let_def getStateByHash_stage split: option.splits)
  have l0: "fst looped = None"
    using m ret by (cases "fst looped") simp_all
  have n0: "numbered (snd (snd (None :: error option, worktree r, new_writer Map.empty :: nat writer)))"
    by (simp add: numbered_def new_writer_def)
  have nl: "numbered (snd (snd looped))"
    unfolding looped_def using n0 by (rule merge_loop_numbered)
  have own: "map_of A filePath \<noteq> None \<or> map_of T filePath \<noteq> None"
    using c3 by (auto simp: get_property_def A_def T_def split: if_splits option.splits)
  have mem: "filePath \<in> set allFiles"
  proof (cases "map_of A filePath = None")
    case True
    with own have "map_of T filePath \<noteq> None" by simp
    then have "filePath \<in> set (map fst T)" by (rule key_of_lookup)
    moreover have "filePath \<notin> set (map fst A)"
      using True lookup_of_key [of filePath A] by auto
    ultimately show ?thesis by (simp add: allFiles_def)
  next
    case False
    then have "filePath \<in> set (map fst A)" by (rule key_of_lookup)
    then show ?thesis by (simp add: allFiles_def)
  qed
  have res: "map_of (fst (snd looped)) filePath
               = Some (conflictContent (get_property A filePath) (get_property T filePath) targetBranch)
             \<and> held (snd (snd looped)) filePath
               = Some (CreateFile (conflictContent (get_property A filePath) (get_property T filePath) targetBranch))"
    unfolding looped_def
    using c1 c2 c3 mem n0 l0 [unfolded looped_def]
    by (intro merge_loop_conflict) (simp_all add: A_def B_def T_def)
  have "map_of (getStagedChanges (snd (merge targetBranch r))) = held (snd (snd looped))"
    unfolding getStagedChanges_def m [THEN conjunct2, THEN mp, OF l0, THEN conjunct2]
    using nl by (rule loaded_final)
  moreover have "worktree (snd (merge targetBranch r)) = fst (snd looped)"
    using m l0 by simp
  ultimately show ?thesis using res by (simp add: A_def T_def)
qed

text \<open>
  For a path that is not the name of a member of \<open>Object.prototype\<close>, the values read
  are the entries of the states, and the text between the markers is the entry or empty.
\<close>

lemma get_property_own:
  "key \<notin> set object_prototype_members \<Longrightarrow>
   get_property state key = (case map_of state key of None \<Rightarrow> Undefined | Some s \<Rightarrow> Text s)
   \<and> value_or_empty (get_property state key) = or_empty (map_of state key)"
  by (auto simp: get_property_def value_or_empty_def or_empty_def object_prototype_members_def
        split: option.splits)

text \<open>The three states of the merge on the workspace with the file \<open>constructor\<close>.\<close>

lemma member_states:
  "map_of (merge_base member_repo ''main'') ''constructor'' = Some ''x''"
  "map_of (merge_ours member_repo) ''constructor'' = Some ''y''"
  "map_of (merge_theirs member_repo ''main'') ''constructor'' = None"
  by code_simp+

lemma member_fields:
  "active_branch member_repo = ''work''"
  "active_parent member_repo = Some ''w1''"
  "local_history member_repo ''work'' = Some member_work"
  "local_history member_repo ''main'' = Some member_main"
  "worktree member_repo = [(''constructor'', ''y''), (''a.txt'', ''a'')]"
  "commits member_work = [''c0'', ''w1'']"
  "commits member_main = [''c0'', ''d1'']"
  by (simp_all add: member_repo_def member_work_def member_main_def)

lemma member_state_values:
  "getStateByHash member_repo ''work'' (Some ''c0'') = [(''constructor'', ''x''), (''a.txt'', ''a'')]"
  "getStateByHash member_repo ''work'' (Some ''w1'') = [(''constructor'', ''y''), (''a.txt'', ''a'')]"
  "getStateByHash member_repo ''main'' (Some ''d1'') = [(''a.txt'', ''a'')]"
  by code_simp+

lemmas merge_eval = merge_def merge_file_def get_property_def object_prototype_members_def
  conflictContent_def value_or_empty_def member_text_def commonAncestor_def
  place_def savePart_def writePart_def new_writer_def change_size_def change_json_def
  quote_def quote_unit_def MAX_PART_SIZE_def getStagedChanges_def getPaginatedChanges_def
  assign_def Let_def getStateByHash_stage member_fields member_state_values

text \<open>
  Claim C7 says that the text between the markers is the content on each side, or empty
  where the side has no such file. On the workspace with a file named \<open>constructor\<close>,
  which \<open>main\<close> removed and \<open>work\<close> changed from \<open>"x"\<close> to \<open>"y"\<close>, the three values
  differ pairwise and theirs has no entry. \<open>merge('main')\<close> returns, and both the working
  tree and the staged \<open>createFile\<close> hold, below the separator, not the empty text but
  the text of the function \<open>Object\<close>, which the lookup in the target state found on
  \<open>Object.prototype\<close>.
\<close>

theorem merge_reads_inherited_member:
  "map_of (merge_base member_repo ''main'') ''constructor'' = Some ''x''
   \<and> map_of (merge_ours member_repo) ''constructor'' = Some ''y''
   \<and> map_of (merge_theirs member_repo ''main'') ''constructor'' = None
   \<and> fst (merge ''main'' member_repo) = Inr ''Merged main.''
   \<and> map_of (worktree (snd (merge ''main'' member_repo))) ''constructor''
       = Some (''<<<<<<< active'' @ [CHR 0x0A] @ ''y'' @ [CHR 0x0A] @ ''======='' @ [CHR 0x0A]
               @ ''function Object() { [native code] }'' @ [CHR 0x0A] @ ''>>>>>>> main'')
   \<and> map_of (getStagedChanges (snd (merge ''main'' member_repo))) ''constructor''
       = Some (CreateFile (''<<<<<<< active'' @ [CHR 0x0A] @ ''y'' @ [CHR 0x0A] @ ''======='' @ [CHR 0x0A]
               @ ''function Object() { [native code] }'' @ [CHR 0x0A] @ ''>>>>>>> main''))"
  unfolding member_states by (simp add: merge_eval)

text \<open>The whole outcome of that merge: the message, the working tree and the stage.\<close>

lemma member_merge:
  "fst (merge ''main'' member_repo) = Inr ''Merged main.''"
  "worktree (snd (merge ''main'' member_repo))
     = [(''constructor'', ''<<<<<<< active'' @ [CHR 0x0A] @ ''y'' @ [CHR 0x0A] @ ''======='' @ [CHR 0x0A]
               @ ''function Object() { [native code] }'' @ [CHR 0x0A] @ ''>>>>>>> main''),
        (''a.txt'', ''a'')]"
  "stage (snd (merge ''main'' member_repo))
     = Some \<lparr>manifest_parts = Some [0],
              parts_on_disk = [0 \<mapsto> [(''constructor'',
                 CreateFile (''<<<<<<< active'' @ [CHR 0x0A] @ ''y'' @ [CHR 0x0A] @ ''======='' @ [CHR 0x0A]
               @ ''function Object() { [native code] }'' @ [CHR 0x0A] @ ''>>>>>>> main''))]]\<rparr>"
  by (simp_all add: merge_eval)
section \<open>The dirty test of checkout\<close>

lemma map_of_keys: "(file \<in> fst ` set al) = (map_of al file \<noteq> None)"
  by (induction al) auto

lemma keys_map_of: "set (map fst al) = {k. map_of al k \<noteq> None}"
  using map_of_keys [of _ al] by auto

lemma list_ex_keys: "list_ex P (map fst al) = (\<exists>k. map_of al k \<noteq> None \<and> P k)"
  unfolding list_ex_iff keys_map_of by simp

lemma isDirty_spec:
  assumes "list_all (\<lambda>file. startsWith_art file \<longrightarrow> map_of tree file = map_of state file)
                    (map fst tree)"
  shows "isDirty tree state = spec_dirty tree state"
proof -
  have flt: "list_ex (\<lambda>file. map_of tree file \<noteq> map_of state file)
                     (filter (\<lambda>file. \<not> startsWith_art file) (map fst tree))
             = list_ex (\<lambda>file. map_of tree file \<noteq> map_of state file) (map fst tree)"
    using assms by (auto simp: list_ex_iff list_all_iff)
  have a: "list_ex (\<lambda>file. map_of tree file \<noteq> map_of state file) (map fst tree)
           = (\<exists>file text. map_of tree file = Some text \<and> map_of state file \<noteq> Some text)"
    unfolding list_ex_keys by (metis not_Some_eq)
  have b: "list_ex (\<lambda>file. map_of tree file = None) (map fst state)
           = (\<exists>file. map_of state file \<noteq> None \<and> map_of tree file = None)"
    unfolding list_ex_keys ..
  show ?thesis
    unfolding isDirty_def Let_def flt a b spec_dirty_def ..
qed

lemma getStateByHash_cong:
  "root_snapshot r1 = root_snapshot r \<Longrightarrow> local_history r1 b = local_history r b \<Longrightarrow>
   getStateByHash r1 b t = getStateByHash r b t"
  by (simp add: getStateByHash_def split: option.splits)

lemma copy_parts_commits:
  "commits (foldl (\<lambda>acc partName.
                     case part_files d partName of
                       None \<Rightarrow> acc
                     | Some part \<Rightarrow> acc\<lparr>part_files := (part_files acc)(partName \<mapsto> part)\<rparr>)
                  dest names) = commits dest"
  by (induction names arbitrary: dest) (auto split: option.splits)

lemma copy_commit_commits: "commits (copy_commit sourceLocal sourceRemote dest h) = commits dest"
  by (simp add: copy_commit_def Let_def copy_parts_commits split: option.splits payload.splits)

lemma copy_loop_commits:
  "commits (foldl (copy_commit sourceLocal sourceRemote) dest hs) = commits dest"
  by (induction hs arbitrary: dest) (simp_all add: copy_commit_commits)

lemma branch_frame:
  assumes "\<not> illegal_name name" and "local_history r name = None"
  shows "fst (branch name r) = Inr (''Created branch '' @ [CHR 0x22] @ name @ [CHR 0x22] @ ''.'')"
    and "worktree (snd (branch name r)) = worktree r"
    and "active_branch (snd (branch name r)) = active_branch r"
    and "active_parent (snd (branch name r)) = active_parent r"
    and "root_snapshot (snd (branch name r)) = root_snapshot r"
    and "stage (snd (branch name r)) = stage r"
    and "b \<noteq> name \<Longrightarrow> local_history (snd (branch name r)) b = local_history r b"
    and "local_history (snd (branch name r)) name \<noteq> None"
    and "remote_history r b = Some d \<Longrightarrow> remote_history (snd (branch name r)) b = Some d"
    and "b \<noteq> name \<Longrightarrow> remote_history (snd (branch name r)) b = remote_history r b"
  using assms by (auto simp: branch_def Let_def)

lemma branch_manifests:
  assumes "\<not> illegal_name name" and "local_history r name = None"
    and "local_history r (active_branch r) = Some bd"
  shows "map_option commits (local_history (snd (branch name r)) name) = Some (commits bd)"
    and "remote_history r name = None \<Longrightarrow>
         map_option commits (remote_history (snd (branch name r)) name) = Some (commits bd)"
  using assms by (auto simp: branch_def Let_def copy_loop_commits)

text \<open>
  Claim C6, as amended. In a workspace whose active branch exists and where every
  working-tree file whose path begins with \<open>.art\<close> has the content of its entry in the
  state at the active head, for a target branch that exists or whose name \<open>branch\<close>
  accepts: a non-forced \<open>checkout\<close> fails with the error that local changes would be
  overwritten exactly when the tree is dirty. On that failure the working tree and the
  head state are as before, and so is the directory (so the manifest) of every branch,
  local and remote, other than a target that did not exist. With an existing target
  nothing at all has changed. A target that did not exist has been created as \<open>branch\<close>
  creates it from the active branch: its local manifest lists the commits of the active
  branch, and so does its remote manifest unless a remote directory of that name was
  there, which is then as before.
\<close>

theorem checkout_dirty_check:
  assumes art_clean: "list_all (\<lambda>file. startsWith_art file \<longrightarrow>
                          map_of (worktree r) file
                          = map_of (getStateByHash r (active_branch r) (active_parent r)) file)
                        (map fst (worktree r))"
    and active: "local_history r (active_branch r) \<noteq> None"
    and target: "local_history r branchName \<noteq> None \<or> \<not> illegal_name branchName"
  shows "(fst (checkout branchName False r) = Inl LocalChangesWouldBeOverwritten
            \<longleftrightarrow> spec_dirty (worktree r) (getStateByHash r (active_branch r) (active_parent r)))
         \<and> (spec_dirty (worktree r) (getStateByHash r (active_branch r) (active_parent r)) \<longrightarrow>
              worktree (snd (checkout branchName False r)) = worktree r
              \<and> active_branch (snd (checkout branchName False r)) = active_branch r
              \<and> active_parent (snd (checkout branchName False r)) = active_parent r
              \<and> (\<forall>b bd. local_history r b = Some bd
                     \<longrightarrow> local_history (snd (checkout branchName False r)) b = Some bd)
              \<and> (\<forall>b bd. remote_history r b = Some bd
                     \<longrightarrow> remote_history (snd (checkout branchName False r)) b = Some bd)
              \<and> (branchName \<noteq> [] \<longrightarrow> local_history (snd (checkout branchName False r)) branchName \<noteq> None)
              \<and> (\<forall>b. b \<noteq> branchName
                     \<longrightarrow> local_history (snd (checkout branchName False r)) b = local_history r b
                         \<and> remote_history (snd (checkout branchName False r)) b = remote_history r b)
              \<and> (branchName = [] \<or> local_history r branchName \<noteq> None
                     \<longrightarrow> snd (checkout branchName False r) = r)
              \<and> (branchName \<noteq> [] \<and> local_history r branchName = None
                     \<longrightarrow> snd (checkout branchName False r) = snd (branch branchName r)
                         \<and> map_option commits (local_history (snd (checkout branchName False r)) branchName)
                             = map_option commits (local_history r (active_branch r))
                         \<and> (remote_history r branchName = None
                              \<longrightarrow> map_option commits (remote_history (snd (checkout branchName False r)) branchName)
                                  = map_option commits (local_history r (active_branch r)))))"
proof (cases "branchName \<noteq> [] \<and> local_history r branchName = None")
  case True
  then have legal: "\<not> illegal_name branchName" and missing: "local_history r branchName = None"
    using target by simp_all
  from True active have neq: "active_branch r \<noteq> branchName" by auto
  obtain abd where abd: "local_history r (active_branch r) = Some abd"
    using active by auto
  define r1 where "r1 = snd (branch branchName r)"
  note bf = branch_frame [OF legal missing, folded r1_def]
  note bm = branch_manifests [OF legal missing abd, folded r1_def]
  have br: "branch branchName r
            = (Inr (''Created branch '' @ [CHR 0x22] @ branchName @ [CHR 0x22] @ ''.''), r1)"
    using bf(1) by (simp add: r1_def prod_eq_iff)
  have st: "getStateByHash r1 (active_branch r1) (active_parent r1)
            = getStateByHash r (active_branch r) (active_parent r)"
    unfolding bf(3) bf(4) using neq by (intro getStateByHash_cong bf(5) bf(7))
  have dirty: "isDirty (worktree r1) (getStateByHash r1 (active_branch r1) (active_parent r1))
               = spec_dirty (worktree r) (getStateByHash r (active_branch r) (active_parent r))"
    unfolding st bf(2) using art_clean by (rule isDirty_spec)
  show ?thesis
  proof (cases "spec_dirty (worktree r) (getStateByHash r (active_branch r) (active_parent r))")
    case d: True
    have co: "checkout branchName False r = (Inl LocalChangesWouldBeOverwritten, r1)"
      using True br d dirty by (simp add: checkout_def)
    have "\<forall>b bd. local_history r b = Some bd \<longrightarrow> local_history r1 b = Some bd"
      using bf(7) missing by (metis option.distinct(1))
    moreover have "\<forall>b bd. remote_history r b = Some bd \<longrightarrow> remote_history r1 b = Some bd"
      using bf(9) by blast
    moreover have "\<forall>b. b \<noteq> branchName \<longrightarrow> local_history r1 b = local_history r b
                          \<and> remote_history r1 b = remote_history r b"
      using bf(7) bf(10) by blast
    moreover have "map_option commits (local_history r1 branchName)
                   = map_option commits (local_history r (active_branch r))"
      using bm(1) abd by simp
    moreover have "remote_history r branchName = None \<longrightarrow>
                   map_option commits (remote_history r1 branchName)
                   = map_option commits (local_history r (active_branch r))"
      using bm(2) abd by simp
    ultimately show ?thesis unfolding co using d True bf(2,3,4,8) by (simp add: r1_def [symmetric])
  next
    case d: False
    obtain bd where ex: "local_history r1 branchName = Some bd" using bf(8) by auto
    have "fst (checkout branchName False r) \<noteq> Inl LocalChangesWouldBeOverwritten"
      using True br d dirty ex by (simp add: checkout_def Let_def)
    then show ?thesis using d by simp
  qed
next
  case False
  have dirty: "isDirty (worktree r) (getStateByHash r (active_branch r) (active_parent r))
               = spec_dirty (worktree r) (getStateByHash r (active_branch r) (active_parent r))"
    using isDirty_spec [OF art_clean] by simp
  show ?thesis
  proof (cases "spec_dirty (worktree r) (getStateByHash r (active_branch r) (active_parent r))")
    case d: True
    have "checkout branchName False r = (Inl LocalChangesWouldBeOverwritten, r)"
      using False d dirty by (auto simp: checkout_def)
    then show ?thesis using d False by auto
  next
    case d: False
    have "fst (checkout branchName False r) \<noteq> Inl LocalChangesWouldBeOverwritten"
      using False d dirty by (auto simp: checkout_def Let_def split: option.splits)
    then show ?thesis using d by simp
  qed
qed

text \<open>
  The theorem on two dirty workspaces: the edited example with the existing target
  \<open>main\<close>, where nothing changes, and the workspace with an unchanged \<open>.artignore\<close>
  with the missing target \<open>feature\<close>, which is created with the commits of \<open>main\<close>.
\<close>

theorem checkout_dirty_check_witness:
  "list_all (\<lambda>file. startsWith_art file \<longrightarrow>
        map_of (worktree edited_repo) file
        = map_of (getStateByHash edited_repo (active_branch edited_repo) (active_parent edited_repo)) file)
      (map fst (worktree edited_repo))
   \<and> local_history edited_repo (active_branch edited_repo) \<noteq> None
   \<and> local_history edited_repo ''main'' \<noteq> None
   \<and> spec_dirty (worktree edited_repo)
        (getStateByHash edited_repo (active_branch edited_repo) (active_parent edited_repo))
   \<and> fst (checkout ''main'' False edited_repo) = Inl LocalChangesWouldBeOverwritten
   \<and> snd (checkout ''main'' False edited_repo) = edited_repo
   \<and> list_all (\<lambda>file. startsWith_art file \<longrightarrow>
        map_of (worktree ignoring_repo) file
        = map_of (getStateByHash ignoring_repo (active_branch ignoring_repo) (active_parent ignoring_repo)) file)
      (map fst (worktree ignoring_repo))
   \<and> startsWith_art ''.artignore''
   \<and> map_of (worktree ignoring_repo) ''.artignore'' = Some ''dist''
   \<and> local_history ignoring_repo (active_branch ignoring_repo) \<noteq> None
   \<and> local_history ignoring_repo ''feature'' = None
   \<and> remote_history ignoring_repo ''feature'' = None
   \<and> \<not> illegal_name ''feature''
   \<and> spec_dirty (worktree ignoring_repo)
        (getStateByHash ignoring_repo (active_branch ignoring_repo) (active_parent ignoring_repo))
   \<and> fst (checkout ''feature'' False ignoring_repo) = Inl LocalChangesWouldBeOverwritten
   \<and> worktree (snd (checkout ''feature'' False ignoring_repo)) = worktree ignoring_repo
   \<and> map_option commits (local_history (snd (checkout ''feature'' False ignoring_repo)) ''feature'')
       = Some [''h1'', ''h2'']
   \<and> map_option commits (remote_history (snd (checkout ''feature'' False ignoring_repo)) ''feature'')
       = Some [''h1'', ''h2'']"
proof -
  let ?S = "getStateByHash edited_repo (active_branch edited_repo) (active_parent edited_repo)"
  let ?T = "getStateByHash ignoring_repo (active_branch ignoring_repo) (active_parent ignoring_repo)"
  have h1: "list_all (\<lambda>file. startsWith_art file \<longrightarrow>
                map_of (worktree edited_repo) file = map_of ?S file) (map fst (worktree edited_repo))"
    by (simp add: edited_repo_def example_repo_def startsWith_art_def)
  have h2: "local_history edited_repo (active_branch edited_repo) \<noteq> None"
    and h3: "local_history edited_repo ''main'' \<noteq> None"
    by (simp_all add: edited_repo_def example_repo_def)
  have "map_of (worktree edited_repo) ''a.txt'' = Some ''edited''
        \<and> map_of ?S ''a.txt'' \<noteq> Some ''edited''"
    by (simp add: edited_repo_def eval_defs)
  then have d: "spec_dirty (worktree edited_repo) ?S"
    unfolding spec_dirty_def by blast
  have T: "?T = [(''.artignore'', ''dist''), (''a.txt'', ''Hello'' @ [CHR 0x0A])]"
    by (simp add: ignoring_repo_def eval_defs)
  have g1: "list_all (\<lambda>file. startsWith_art file \<longrightarrow>
                map_of (worktree ignoring_repo) file = map_of ?T file) (map fst (worktree ignoring_repo))"
    unfolding T by (simp add: ignoring_repo_def example_repo_def startsWith_art_def)
  have g2: "local_history ignoring_repo (active_branch ignoring_repo) \<noteq> None"
    and g3: "local_history ignoring_repo ''feature'' = None"
    and g4: "remote_history ignoring_repo ''feature'' = None"
    and g5: "\<not> illegal_name ''feature''"
    and g6: "map_option commits (local_history ignoring_repo (active_branch ignoring_repo))
             = Some [''h1'', ''h2'']"
    and g7: "startsWith_art ''.artignore''"
    and g8: "map_of (worktree ignoring_repo) ''.artignore'' = Some ''dist''"
    by (simp_all add: ignoring_repo_def example_repo_def example_main_def illegal_name_def
        startsWith_art_def)
  have "map_of (worktree ignoring_repo) ''a.txt'' = Some ''edited''
        \<and> map_of ?T ''a.txt'' \<noteq> Some ''edited''"
    unfolding T by (simp add: ignoring_repo_def example_repo_def)
  then have e: "spec_dirty (worktree ignoring_repo) ?T"
    unfolding spec_dirty_def by blast
  have ne: "''feature'' \<noteq> []"
    by simp
  have first: "fst (checkout ''main'' False edited_repo) = Inl LocalChangesWouldBeOverwritten
               \<and> snd (checkout ''main'' False edited_repo) = edited_repo"
    using checkout_dirty_check [of edited_repo "''main''"] h1 h2 h3 d by blast
  have second: "fst (checkout ''feature'' False ignoring_repo) = Inl LocalChangesWouldBeOverwritten
     \<and> worktree (snd (checkout ''feature'' False ignoring_repo)) = worktree ignoring_repo
     \<and> map_option commits (local_history (snd (checkout ''feature'' False ignoring_repo)) ''feature'')
         = Some [''h1'', ''h2'']
     \<and> map_option commits (remote_history (snd (checkout ''feature'' False ignoring_repo)) ''feature'')
         = Some [''h1'', ''h2'']"
    unfolding g6 [symmetric]
    using checkout_dirty_check [of ignoring_repo "''feature''"] g1 g2 g3 g4 g5 e ne by blast
  from h1 h2 h3 d first g1 g2 g3 g4 g5 g7 g8 e second show ?thesis by blast
qed

text \<open>
  The claim as first stated, with the branch manifests unchanged, fails for a target
  branch that does not exist: on the edited example workspace \<open>checkout('feature')\<close>
  fails on the dirty tree after it has created \<open>feature\<close> with the commit list of
  \<open>main\<close>.
\<close>

theorem checkout_creates_branch_counterexample:
  "map_of (worktree edited_repo) ''a.txt'' = Some ''edited''
   \<and> map_of (getStateByHash edited_repo (active_branch edited_repo) (active_parent edited_repo)) ''a.txt''
        = Some (''Hello'' @ [CHR 0x0A])
   \<and> fst (checkout ''feature'' False edited_repo) = Inl LocalChangesWouldBeOverwritten
   \<and> map_option commits (local_history edited_repo ''feature'') = None
   \<and> map_option commits (local_history (snd (checkout ''feature'' False edited_repo)) ''feature'')
        = Some [''h1'', ''h2'']"
  by (simp add: checkout_def branch_def copy_commit_def illegal_name_def isDirty_def
        startsWith_art_def edited_repo_def eval_defs)

text \<open>
  The filter of the dirty test drops every path that begins with \<open>.art\<close>, not only
  the metadata directory: a changed \<open>.artignore\<close> does not stop the checkout, which
  writes the tracked content over it.
\<close>

lemma checkout_skips_art_prefixed:
  "fst (checkout ''main'' False
         \<lparr>active_branch = ''main'', active_parent = None,
          root_snapshot = Some [[(''.artignore'', ''old'')]],
          local_history = [''main'' \<mapsto> \<lparr>commits = [], masters = Map.empty, part_files = Map.empty\<rparr>],
          remote_history = Map.empty, stage = None,
          worktree = [(''.artignore'', ''new'')]\<rparr>)
     = Inr (''Switched to branch '' @ [CHR 0x22] @ ''main'' @ [CHR 0x22] @ ''.'')
   \<and> worktree (snd (checkout ''main'' False
         \<lparr>active_branch = ''main'', active_parent = None,
          root_snapshot = Some [[(''.artignore'', ''old'')]],
          local_history = [''main'' \<mapsto> \<lparr>commits = [], masters = Map.empty, part_files = Map.empty\<rparr>],
          remote_history = Map.empty, stage = None,
          worktree = [(''.artignore'', ''new'')]\<rparr>))
     = [(''.artignore'', ''old'')]"
  by (simp add: checkout_def isDirty_def startsWith_art_def eval_defs)
section \<open>The sizes of the parts written\<close>

lemma account_update:
  "part_account (AList.update k v al) \<le> part_account al + change_size v"
  by (induction al) (auto simp: part_account_def)

lemma length_update_Nil: "length (AList.update k v []) = 1"
  by simp

lemma counted_within_current:
  assumes "part_account c \<le> s" and "s \<le> MAX_PART_SIZE \<or> length c \<le> 1"
  shows "counted_within c"
proof (cases "part_account c \<le> MAX_PART_SIZE")
  case True
  then show ?thesis by (simp add: counted_within_def)
next
  case False
  with assms have "length c \<le> 1" by auto
  moreover have "c \<noteq> []" using False by (auto simp: part_account_def)
  ultimately have "length c = 1" by (cases c) auto
  with False show ?thesis by (simp add: counted_within_def)
qed

lemma writePart_ok: "writer_ok before w \<Longrightarrow> writer_ok before (writePart nm w)"
proof -
  assume ok: "writer_ok before w"
  then have "counted_within (currentPartChanges w)"
    by (intro counted_within_current [of _ "currentSize w"]) (simp_all add: writer_ok_def)
  then show ?thesis using ok
    by (auto simp: writer_ok_def writePart_def part_account_def)
qed

lemma savePart_ok: "writer_ok before w \<Longrightarrow> writer_ok before (savePart nm w)"
  by (simp add: savePart_def writePart_ok)

lemma savePart_current: "currentPartChanges (savePart nm w) = []"
  by (simp add: savePart_def writePart_def)

lemma writePart_current: "currentPartChanges (writePart nm w) = []"
  by (simp add: writePart_def)

lemma place_ok:
  assumes ok: "writer_ok before w"
    and save_ok: "\<And>w. writer_ok before w \<Longrightarrow> writer_ok before (save w)"
    and save_empties: "\<And>w. currentPartChanges (save w) = []"
  shows "writer_ok before (place save ask w entry)"
proof -
  define size where "size = change_size (snd entry)"
  define w' where "w' = (if currentSize w + size > MAX_PART_SIZE
                            \<and> (if ask then length (currentPartChanges w) > 0 else True)
                         then save w else w)"
  have ok': "writer_ok before w'"
    unfolding w'_def using ok save_ok by simp
  have room: "currentPartChanges w' = [] \<or> currentSize w' + size \<le> MAX_PART_SIZE"
    unfolding w'_def using save_empties by auto
  have p: "place save ask w entry
           = w'\<lparr>currentPartChanges := AList.update (fst entry) (snd entry) (currentPartChanges w'),
                currentSize := currentSize w' + size\<rparr>"
    by (simp add: place_def Let_def w'_def size_def)
  have a: "part_account (AList.update (fst entry) (snd entry) (currentPartChanges w'))
           \<le> currentSize w' + size"
    using account_update [of "fst entry" "snd entry" "currentPartChanges w'"] ok'
    by (simp add: writer_ok_def size_def)
  have b: "currentSize w' + size \<le> MAX_PART_SIZE
           \<or> length (AList.update (fst entry) (snd entry) (currentPartChanges w')) \<le> 1"
    using room by auto
  show ?thesis
    unfolding p using ok' a b by (simp add: writer_ok_def)
qed

lemma fill_ok:
  assumes save_ok: "\<And>w. writer_ok before w \<Longrightarrow> writer_ok before (save w)"
    and save_empties: "\<And>w. currentPartChanges (save w) = []"
  shows "writer_ok before w \<Longrightarrow> writer_ok before (foldl (place save ask) w cs)"
proof (induction cs arbitrary: w)
  case Nil
  then show ?case by simp
next
  case (Cons entry cs)
  have "writer_ok before (place save ask w entry)"
    using Cons.prems save_ok save_empties by (rule place_ok)
  then show ?case using Cons.IH by simp
qed

lemma new_writer_ok: "writer_ok before (new_writer before)"
  by (simp add: writer_ok_def new_writer_def part_account_def)

lemma save_store_counted:
  "parts_on_disk (savePaginatedChanges cs) n = Some part \<Longrightarrow> counted_within part"
proof -
  assume a: "parts_on_disk (savePaginatedChanges cs) n = Some part"
  have "writer_ok Map.empty (foldl (place (savePart id) True) (new_writer Map.empty) cs)"
    by (intro fill_ok savePart_ok savePart_current new_writer_ok)
  then have "writer_ok Map.empty
               (savePart id (foldl (place (savePart id) True) (new_writer Map.empty) cs))"
    by (rule savePart_ok)
  then show ?thesis
    using a by (simp add: savePaginatedChanges_def Let_def writer_ok_def)
qed

lemma save_add_counted:
  "parts_on_disk (add_save cs) n = Some part \<Longrightarrow> counted_within part"
proof -
  assume a: "parts_on_disk (add_save cs) n = Some part"
  have "writer_ok Map.empty (foldl (place (writePart id) True) (new_writer Map.empty) cs)"
    by (intro fill_ok writePart_ok writePart_current new_writer_ok)
  then have "writer_ok Map.empty
               (writePart id (foldl (place (writePart id) True) (new_writer Map.empty) cs))"
    by (rule writePart_ok)
  then show ?thesis
    using a by (simp add: add_save_def Let_def writer_ok_def)
qed

lemma save_commit_counted:
  assumes "local_history r (active_branch r) = Some bd"
    and "local_history (snd (commit sha1 now message r)) (active_branch r) = Some bd'"
    and "part_files bd' name = Some part"
  shows "counted_within part \<or> part_files bd name = Some part"
proof (cases "message = [] \<or> stage r = None")
  case True
  then have "snd (commit sha1 now message r) = r" by (auto simp: commit_def)
  with assms show ?thesis by simp
next
  case False
  define h where "h = sha1 (stringify (changes_json (getStagedChanges r)) @ dec now @ message)"
  define w where "w = savePart (Pair h)
                        (foldl (place (savePart (Pair h)) True)
                               (new_writer (part_files bd)) (getStagedChanges r))"
  have "writer_ok (part_files bd)
          (foldl (place (savePart (Pair h)) True) (new_writer (part_files bd)) (getStagedChanges r))"
    by (intro fill_ok savePart_ok savePart_current new_writer_ok)
  then have ok: "writer_ok (part_files bd) w"
    unfolding w_def by (rule savePart_ok)
  have "part_files bd' = written w"
    using False assms(1,2)
    by (auto simp: commit_def Let_def h_def [symmetric] w_def [symmetric])
  then have "written w name = Some part" using assms(3) by simp
  moreover have "\<forall>nm p. written w nm = Some p \<longrightarrow> counted_within p \<or> part_files bd nm = Some p"
    using ok unfolding writer_ok_def by blast
  ultimately show ?thesis by blast
qed


lemma merge_file_ok:
  "writer_ok Map.empty (snd (snd acc)) \<Longrightarrow>
   writer_ok Map.empty (snd (snd (merge_file B A T tb acc f)))"
  by (simp add: merge_file_def Let_def place_ok [OF _ savePart_ok savePart_current]
        split: jsvalue.splits)

lemma merge_loop_ok:
  "writer_ok Map.empty (snd (snd acc)) \<Longrightarrow>
   writer_ok Map.empty (snd (snd (foldl (merge_file B A T tb) acc fs)))"
  by (induction fs arbitrary: acc) (simp_all add: merge_file_ok)

lemma save_merge_counted:
  assumes "stage (snd (merge targetBranch r)) = Some d" and "parts_on_disk d n = Some part"
  shows "counted_within part"
proof -
  have key: "counted_within part" if "writer_ok Map.empty W" "written W n = Some part"
    for W :: "nat writer"
    using that by (auto simp: writer_ok_def)
  have init: "writer_ok Map.empty
                (snd (snd (None :: error option, worktree r, new_writer Map.empty :: nat writer)))"
    using new_writer_ok by simp
  have L: "writer_ok Map.empty
             (snd (snd (foldl (merge_file B A T targetBranch)
                          (None, worktree r, new_writer Map.empty) fs)))" for B A T fs
    using init by (rule merge_loop_ok)
  have L2: "writer_ok Map.empty
             (savePart id (snd (snd (foldl (merge_file B A T targetBranch)
                          (None, worktree r, new_writer Map.empty) fs))))" for B A T fs
    using L by (rule savePart_ok)
  show ?thesis
    using assms
    by (auto simp: merge_def Let_def simp del: foldl_append split: option.splits
          intro: key [OF L] key [OF L2])
qed

text \<open>
  Claim C8, as amended. In every part that the store writes, the sizes counted for its
  entries, each the length in UTF-16 code units of \<open>JSON.stringify\<close> of the change value
  alone, without the key, sum to at most \<open>MAX_PART_SIZE\<close>, except in a part that holds a
  single entry counted above the bound. This holds for \<open>savePaginatedChanges\<close> and for
  the copies of its loop in \<open>add\<close>, in \<open>commit\<close> (for every part file of the branch
  directory that was not there unchanged before the commit) and in \<open>merge\<close>.
\<close>

theorem parts_counted_within:
  "(parts_on_disk (savePaginatedChanges cs) n = Some part \<longrightarrow>
      part_account part \<le> MAX_PART_SIZE \<or> (length part = 1 \<and> MAX_PART_SIZE < part_account part))
   \<and> (parts_on_disk (add_save cs) n = Some part \<longrightarrow>
      part_account part \<le> MAX_PART_SIZE \<or> (length part = 1 \<and> MAX_PART_SIZE < part_account part))
   \<and> (local_history r (active_branch r) = Some bd
       \<and> local_history (snd (commit sha1 now message r)) (active_branch r) = Some bd'
       \<and> part_files bd' name = Some part \<longrightarrow>
      part_account part \<le> MAX_PART_SIZE \<or> (length part = 1 \<and> MAX_PART_SIZE < part_account part)
      \<or> part_files bd name = Some part)
   \<and> (stage (snd (merge targetBranch r)) = Some d \<and> parts_on_disk d n = Some part \<longrightarrow>
      part_account part \<le> MAX_PART_SIZE \<or> (length part = 1 \<and> MAX_PART_SIZE < part_account part))"
  using save_store_counted [of cs n part] save_add_counted [of cs n part]
    save_commit_counted [of r bd sha1 now message bd' name part]
    save_merge_counted [of targetBranch r d n part]
  unfolding counted_within_def by blast

text \<open>Sizes of the example changes.\<close>

lemma quote_unit_e: "quote_unit (CHR 0xE9) = [CHR 0xE9]"
  by (simp add: quote_unit_def)

lemma concat_replicate_single: "concat (replicate n [c]) = replicate n c"
  by (induction n) auto

lemma utf8_length_append: "utf8_length (a @ b) = utf8_length a + utf8_length b"
  by (simp add: utf8_length_def)

lemma utf8_length_Cons: "utf8_length (c # s) = (if of_char c < (0x80 :: nat) then 1 else 2) + utf8_length s"
  by (simp add: utf8_length_def)

lemma utf8_length_Nil: "utf8_length [] = 0"
  by (simp add: utf8_length_def)

lemma utf8_length_replicate:
  "utf8_length (replicate n c) = n * (if of_char c < (0x80 :: nat) then 1 else 2)"
  by (induction n) (auto simp: utf8_length_def)

lemma c8_content_quote: "concat (map quote_unit c8_content) = c8_content"
  by (simp add: c8_content_def quote_unit_e concat_replicate_single)

lemma c8_content_length: "length c8_content = 15999966"
  by (simp add: c8_content_def)

lemma c8_content_bytes: "utf8_length c8_content = 31999932"
  by (simp add: c8_content_def utf8_length_replicate)

lemma c8_size: "change_size (CreateFile c8_content) = 16000000"
  by (simp add: change_size_def change_json_def c8_content_quote c8_content_length quote_def quote_unit_def)

lemma c8_account: "part_account c8_changes = 32000000"
  by (simp add: part_account_def c8_changes_def c8_size)

lemma c8_value_bytes: "part_value_bytes c8_changes = 63999932"
  by (simp add: part_value_bytes_def c8_changes_def change_json_def c8_content_quote quote_def
      quote_unit_def utf8_length_append utf8_length_Cons utf8_length_Nil c8_content_bytes)

lemma c8_disk: "part_disk_size c8_changes = 64000017"
  by (simp add: part_disk_size_def part_text_def c8_changes_def changes_json_def change_json_def
      c8_content_quote indent_def quote_def quote_unit_def
      utf8_length_append utf8_length_Cons utf8_length_Nil utf8_length_replicate c8_content_bytes)

lemma c8_saved: "savePaginatedChanges c8_changes
    = \<lparr>manifest_parts = Some [0], parts_on_disk = [0 \<mapsto> c8_changes]\<rparr>"
  by (simp add: savePaginatedChanges_def c8_changes_def place_def savePart_def writePart_def
      new_writer_def c8_size MAX_PART_SIZE_def Let_def)

lemma c8_added: "add_save c8_changes
    = \<lparr>manifest_parts = Some [0], parts_on_disk = [0 \<mapsto> c8_changes]\<rparr>"
  by (simp add: add_save_def c8_changes_def place_def writePart_def
      new_writer_def c8_size MAX_PART_SIZE_def Let_def)

lemma c8_committed:
  "local_history c8_repo (active_branch c8_repo) = Some example_main"
  "local_history (snd (commit (\<lambda>text. ''big'') 7 ''big'' c8_repo)) (active_branch c8_repo)
     = Some (example_main\<lparr>commits := [''h1'', ''h2'', ''big''],
               masters := (masters example_main)
                 (''big'' \<mapsto> \<lparr>cm_hash = ''big'', cm_message = ''big'', cm_timestamp = 7,
                               cm_parent = Some ''h2'', cm_payload = Parts [(''big'', 0)]\<rparr>),
               part_files := (part_files example_main)((''big'', 0) \<mapsto> c8_changes)\<rparr>)"
  by (simp_all add: c8_repo_def example_repo_def commit_def getStagedChanges_def
      getPaginatedChanges_def assign_def c8_changes_def [symmetric] place_def savePart_def
      writePart_def new_writer_def c8_size MAX_PART_SIZE_def Let_def)
     (simp_all add: c8_changes_def example_main_def place_def savePart_def
      writePart_def new_writer_def c8_size MAX_PART_SIZE_def Let_def)


text \<open>
  The theorem on the two changes of 15,999,966 letters \<open>e\<close> with acute accent each, saved
  by the store, by \<open>add\<close> and by \<open>commit\<close>, and on the stage that \<open>merge\<close> wrote for the
  workspace with the file \<open>constructor\<close>.
\<close>

theorem parts_counted_within_witness:
  "parts_on_disk (savePaginatedChanges c8_changes) 0 = Some c8_changes
   \<and> parts_on_disk (add_save c8_changes) 0 = Some c8_changes
   \<and> local_history c8_repo (active_branch c8_repo) = Some example_main
   \<and> (\<exists>bd'. local_history (snd (commit (\<lambda>text. ''big'') 7 ''big'' c8_repo)) (active_branch c8_repo) = Some bd'
         \<and> part_files bd' (''big'', 0) = Some c8_changes)
   \<and> part_files example_main (''big'', 0) = None
   \<and> (\<exists>d. stage (snd (merge ''main'' member_repo)) = Some d
         \<and> parts_on_disk d 0 = Some [(''constructor'',
                 CreateFile (''<<<<<<< active'' @ [CHR 0x0A] @ ''y'' @ [CHR 0x0A] @ ''======='' @ [CHR 0x0A]
               @ ''function Object() { [native code] }'' @ [CHR 0x0A] @ ''>>>>>>> main''))])
   \<and> length c8_changes = 2
   \<and> part_account c8_changes \<le> MAX_PART_SIZE
   \<and> part_account [(''constructor'',
                 CreateFile (''<<<<<<< active'' @ [CHR 0x0A] @ ''y'' @ [CHR 0x0A] @ ''======='' @ [CHR 0x0A]
               @ ''function Object() { [native code] }'' @ [CHR 0x0A] @ ''>>>>>>> main''))] \<le> MAX_PART_SIZE"
proof -
  let ?r' = "snd (commit (\<lambda>text. ''big'') 7 ''big'' c8_repo)"
  let ?bd' = "the (local_history ?r' (active_branch c8_repo))"
  let ?d = "the (stage (snd (merge ''main'' member_repo)))"
  let ?p = "[(''constructor'', CreateFile (''<<<<<<< active'' @ [CHR 0x0A] @ ''y'' @ [CHR 0x0A] @ ''======='' @ [CHR 0x0A]
               @ ''function Object() { [native code] }'' @ [CHR 0x0A] @ ''>>>>>>> main''))]"
  have store: "parts_on_disk (savePaginatedChanges c8_changes) 0 = Some c8_changes"
    and added: "parts_on_disk (add_save c8_changes) 0 = Some c8_changes"
    by (simp_all add: c8_saved c8_added)
  have before: "local_history c8_repo (active_branch c8_repo) = Some example_main"
    and after: "local_history ?r' (active_branch c8_repo) = Some ?bd'"
    and filed: "part_files ?bd' (''big'', 0) = Some c8_changes"
    and fresh: "part_files example_main (''big'', 0) = None"
    by (simp_all add: c8_committed) (simp add: example_main_def)
  have merged: "stage (snd (merge ''main'' member_repo)) = Some ?d"
    and part: "parts_on_disk ?d 0 = Some ?p"
    by (simp_all add: member_merge)
  have two: "length c8_changes = 2"
    by (simp add: c8_changes_def)
  have "part_account c8_changes \<le> MAX_PART_SIZE"
    using parts_counted_within [of c8_changes 0 c8_changes c8_repo example_main
        "\<lambda>text. ''big''" 7 "''big''" ?bd' "(''big'', 0)" "''main''" ?d]
      store added before after filed fresh two
    by simp
  moreover have "part_account ?p \<le> MAX_PART_SIZE"
    using parts_counted_within [of c8_changes 0 ?p member_repo example_main
        "\<lambda>text. ''big''" 7 "''big''" ?bd' "(''big'', 0)" "''main''" ?d]
      merged part
    by (simp add: part_account_def change_size_def change_json_def quote_def quote_unit_def
        MAX_PART_SIZE_def)
  ultimately show ?thesis
    using store added before after filed fresh merged part two by blast
qed

text \<open>
  The claim as first stated bounds the serialization on disk, and counts bytes. The two
  changes above are counted 16,000,000 each, so they share part 0, whose counted sizes
  sum to \<open>MAX_PART_SIZE\<close> exactly. The encodings of the two values take 63,999,932 bytes
  and the part file takes 64,000,017 bytes.
\<close>

theorem save_part_bytes_counterexample:
  "manifest_parts (savePaginatedChanges c8_changes) = Some [0]
   \<and> parts_on_disk (savePaginatedChanges c8_changes) 0 = Some c8_changes
   \<and> length c8_changes = 2
   \<and> part_account c8_changes = MAX_PART_SIZE
   \<and> MAX_PART_SIZE < part_value_bytes c8_changes
   \<and> part_value_bytes c8_changes = 63999932
   \<and> part_disk_size c8_changes = 64000017"
  by (simp add: c8_saved c8_account c8_value_bytes c8_disk MAX_PART_SIZE_def)
     (simp add: c8_changes_def)

end
